theory Spec2Isabelle
  imports Main "HOL-Library.AList" "HOL-Library.Multiset"
begin

section \<open>Strings\<close>

text \<open>
  A Go string is a sequence of bytes; it is modelled as a \<open>string\<close> (a list of 8-bit
  characters). The library functions the program calls are modelled on bytes.
\<close>

definition hasPrefix :: "string \<Rightarrow> string \<Rightarrow> bool" where
  \<comment> \<open>strings.HasPrefix(s, p)\<close>
  "hasPrefix s p = (take (length p) s = p)"

definition lowerByte :: "char \<Rightarrow> char" where
  \<comment> \<open>the ASCII letters A-Z become a-z; every other byte is kept\<close>
  "lowerByte c =
     (case map_of (zip ''ABCDEFGHIJKLMNOPQRSTUVWXYZ'' ''abcdefghijklmnopqrstuvwxyz'') c of
        Some l \<Rightarrow> l
      | None \<Rightarrow> c)"

text \<open>
  \<open>strings.ToLower\<close> maps each rune through \<open>unicode.ToLower\<close>. On ASCII that is
  \<open>lowerByte\<close>. Two runes outside ASCII have a lower-case form inside ASCII: U+212A (KELVIN
  SIGN, bytes E2 84 AA) becomes \<open>k\<close> and U+0130 (bytes C4 B0) becomes \<open>i\<close>. Every other rune
  outside ASCII, and every byte that is not valid UTF-8, is mapped to bytes that are all
  \<open>\<ge> 0x80\<close>; \<open>toLower\<close> leaves those bytes as they are, which makes no difference to
  \<open>sanitizeAppName\<close>, the only caller: its regular expression deletes every such rune.
\<close>

fun toLower :: "string \<Rightarrow> string" where
  "toLower [] = []"
| "toLower (c # cs) =
     (if c = CHR 0xE2 \<and> take 2 cs = [CHR 0x84, CHR 0xAA] then CHR ''k'' # toLower (drop 2 cs)
      else if c = CHR 0xC4 \<and> take 1 cs = [CHR 0xB0] then CHR ''i'' # toLower (drop 1 cs)
      else lowerByte c # toLower cs)"

definition allowed :: "char \<Rightarrow> bool" where
  \<comment> \<open>the character class \<open>[a-z0-9-]\<close>\<close>
  "allowed c = (c \<in> set ''abcdefghijklmnopqrstuvwxyz0123456789-'')"

definition sanitizeAppName :: "string \<Rightarrow> string" where
  "sanitizeAppName name0 =
     (let name1 = toLower name0;
          name2 = filter allowed name1;
          name3 = (if length name2 > 20 then take 20 name2 else name2)
      in if name3 = [] then ''app'' else name3)"

definition trim :: "string \<Rightarrow> string \<Rightarrow> string" where
  \<comment> \<open>strings.Trim(s, cutset), for a cutset of ASCII characters: the leading and the trailing
      characters that are in the cutset are removed\<close>
  "trim s cutset =
     rev (dropWhile (\<lambda>c. c \<in> set cutset) (rev (dropWhile (\<lambda>c. c \<in> set cutset) s)))"

text \<open>
  \<open>strings.TrimSpace\<close> removes the leading and trailing runes that \<open>unicode.IsSpace\<close> accepts.
  \<open>spaces\<close> lists their UTF-8 encodings: tab, line feed, vertical tab, form feed, carriage
  return, space, U+0085, U+00A0, U+1680, U+2000 to U+200A, U+2028, U+2029, U+202F, U+205F and
  U+3000.
\<close>

definition spaces :: "string list" where
  "spaces =
     [[CHR 0x09], [CHR 0x0A], [CHR 0x0B], [CHR 0x0C], [CHR 0x0D], [CHR 0x20],
      [CHR 0xC2, CHR 0x85], [CHR 0xC2, CHR 0xA0],
      [CHR 0xE1, CHR 0x9A, CHR 0x80],
      [CHR 0xE2, CHR 0x80, CHR 0x80], [CHR 0xE2, CHR 0x80, CHR 0x81],
      [CHR 0xE2, CHR 0x80, CHR 0x82], [CHR 0xE2, CHR 0x80, CHR 0x83],
      [CHR 0xE2, CHR 0x80, CHR 0x84], [CHR 0xE2, CHR 0x80, CHR 0x85],
      [CHR 0xE2, CHR 0x80, CHR 0x86], [CHR 0xE2, CHR 0x80, CHR 0x87],
      [CHR 0xE2, CHR 0x80, CHR 0x88], [CHR 0xE2, CHR 0x80, CHR 0x89],
      [CHR 0xE2, CHR 0x80, CHR 0x8A],
      [CHR 0xE2, CHR 0x80, CHR 0xA8], [CHR 0xE2, CHR 0x80, CHR 0xA9],
      [CHR 0xE2, CHR 0x80, CHR 0xAF], [CHR 0xE2, CHR 0x81, CHR 0x9F],
      [CHR 0xE3, CHR 0x80, CHR 0x80]]"

definition spaceLen :: "string list \<Rightarrow> string \<Rightarrow> nat" where
  \<comment> \<open>the length in bytes of the member of \<open>ws\<close> that \<open>s\<close> starts with; 0 when there is none\<close>
  "spaceLen ws s = (case find (hasPrefix s) ws of Some w \<Rightarrow> length w | None \<Rightarrow> 0)"

fun trimLeft :: "string list \<Rightarrow> string \<Rightarrow> string" where
  "trimLeft ws [] = []"
| "trimLeft ws (c # cs) =
     (let n = spaceLen ws (c # cs) in if n = 0 then c # cs else trimLeft ws (drop (n - 1) cs))"

definition TrimSpace :: "string \<Rightarrow> string" where
  "TrimSpace s = rev (trimLeft (map rev spaces) (rev (trimLeft spaces s)))"

text \<open>
  \<open>strings.ReplaceAll(s, old, new)\<close> for a non-empty \<open>old\<close>: the occurrences of \<open>old\<close> are found
  scanning from the left, they do not overlap, and the text that has been substituted is not
  scanned again. The program's only call passes \<open>"cid:" + contentID\<close>, which is never empty;
  for the empty pattern (where Go inserts \<open>new\<close> around every rune) \<open>replaceAll\<close> returns \<open>s\<close>.
\<close>

function replaceAll :: "string \<Rightarrow> string \<Rightarrow> string \<Rightarrow> string" where
  "replaceAll [] old new = []"
| "replaceAll (c # cs) old new =
     (if old \<noteq> [] \<and> hasPrefix (c # cs) old
      then new @ replaceAll (drop (length old) (c # cs)) old new
      else c # replaceAll cs old new)"
  by pat_completeness auto
termination
  by (relation "measure (\<lambda>(s, old, new). length s)") (auto simp: Suc_le_eq)

fun contains :: "string \<Rightarrow> string \<Rightarrow> bool" where
  \<comment> \<open>strings.Contains(s, sub)\<close>
  "contains [] sub = (sub = [])"
| "contains (c # cs) sub = (hasPrefix (c # cs) sub \<or> contains cs sub)"

text \<open>
  \<open>base64.StdEncoding.EncodeToString\<close>: three bytes become four characters of the standard
  alphabet; a last group of one or two bytes is padded with \<open>=\<close>.
\<close>

definition encodeStd :: string where
  "encodeStd = ''ABCDEFGHIJKLMNOPQRSTUVWXYZabcdefghijklmnopqrstuvwxyz0123456789+/''"

definition sextet :: "nat \<Rightarrow> char" where
  "sextet n = encodeStd ! (n mod 64)"

fun EncodeToString :: "string \<Rightarrow> string" where
  "EncodeToString (a # b # c # rest) =
     (let n = of_char a * 65536 + of_char b * 256 + of_char c
      in sextet (n div 262144) # sextet (n div 4096) # sextet (n div 64) # sextet n
           # EncodeToString rest)"
| "EncodeToString [a, b] =
     (let n = of_char a * 65536 + of_char b * 256
      in [sextet (n div 262144), sextet (n div 4096), sextet (n div 64), CHR ''=''])"
| "EncodeToString [a] =
     (let n = of_char a * 65536
      in [sextet (n div 262144), sextet (n div 4096), CHR ''='', CHR ''=''])"
| "EncodeToString [] = []"

section \<open>MIME entities\<close>

text \<open>
  The program reads a parsed message through the interface of the go-message library. An
  entity is modelled by what that interface returns for it:
  \<^item> \<open>ctMediaType\<close>, \<open>ctParams\<close>, \<open>ctErr\<close>: the three results of \<open>Header.ContentType()\<close>
    (\<open>ctErr\<close> says that the error is not nil);
  \<^item> \<open>hSubject\<close>, \<open>hContentId\<close>, \<open>hContentDisposition\<close>: \<open>Header.Get\<close> of \<open>Subject\<close>,
    \<open>Content-Id\<close> and \<open>Content-Disposition\<close> (the empty string when the field is absent);
  \<^item> \<open>Body\<close>: the result of \<open>io.ReadAll(entity.Body)\<close>, the bytes read and whether the read
    failed;
  \<^item> \<open>Parts\<close>: \<open>None\<close> when \<open>MultipartReader()\<close> is nil, otherwise the parts that
    \<open>NextPart()\<close> returns, in document order, before it returns \<open>io.EOF\<close> or an error (the
    loop of \<open>extractBodyParts\<close> ends in the same way on both).
\<close>

record header =
  ctMediaType :: string
  ctParams :: "(string \<times> string) list"
  ctErr :: bool
  hSubject :: string
  hContentId :: string
  hContentDisposition :: string

datatype entity = Entity (Header: header) (Body: "string \<times> bool") (Parts: "entity list option")

text \<open>
  The inline image map is a Go \<open>map[string]string\<close>: an association list with one entry for
  each key. The order in which \<open>range\<close> visits the entries of a map is not specified by Go;
  it is a parameter \<open>ord\<close> of the model, a function that returns the entries in the order of
  the visit.

  In the last branch of \<open>extractBodyParts\<close> (any other media type) the program looks up the
  \<open>charset\<close> parameter and then does not use it; the branch returns the body as it was read.
\<close>

type_synonym imageMap = "(string \<times> string) list"

definition rangeOrder :: "(imageMap \<Rightarrow> imageMap) \<Rightarrow> bool" where
  \<comment> \<open>\<open>range\<close> visits every entry of the map once\<close>
  "rangeOrder ord = (\<forall>m. mset (ord m) = mset m)"

definition dataURI :: "string \<Rightarrow> string \<Rightarrow> string" where
  \<comment> \<open>fmt.Sprintf("data:%s;base64,%s", partMediaType, base64.StdEncoding.EncodeToString(body))\<close>
  "dataURI partMediaType body = ''data:'' @ partMediaType @ '';base64,'' @ EncodeToString body"

definition isInlineImage :: "entity \<Rightarrow> bool" where
  \<comment> \<open>the condition of line 270\<close>
  "isInlineImage part =
     (hasPrefix (ctMediaType (Header part)) ''image/'' \<and> hContentId (Header part) \<noteq> [])"

definition recurseInto :: "entity \<Rightarrow> bool" where
  \<comment> \<open>the condition of line 277\<close>
  "recurseInto part =
     (hContentDisposition (Header part) = []
      \<or> \<not> hasPrefix (hContentDisposition (Header part)) ''attachment'')"

definition rewrite :: "(imageMap \<Rightarrow> imageMap) \<Rightarrow> string \<Rightarrow> imageMap \<Rightarrow> string" where
  \<comment> \<open>lines 308 to 312\<close>
  "rewrite ord html inlineImages =
     (if html \<noteq> [] \<and> length inlineImages > 0
      then foldl (\<lambda>h (contentID, uri). replaceAll h (''cid:'' @ contentID) uri) html
             (ord inlineImages)
      else html)"

fun extractBodyParts :: "(imageMap \<Rightarrow> imageMap) \<Rightarrow> entity \<Rightarrow> string \<times> string"
  and partsLoop ::
    "(imageMap \<Rightarrow> imageMap) \<Rightarrow> entity list \<Rightarrow> string \<times> string \<times> imageMap
       \<Rightarrow> string \<times> string \<times> imageMap"
where
  "extractBodyParts ord (Entity h body mr) =
     (if ctErr h then (fst body, [])
      else if hasPrefix (ctMediaType h) ''multipart/'' then
        (case mr of
           None \<Rightarrow> ([], [])
         | Some ps \<Rightarrow>
             (case partsLoop ord ps ([], [], []) of
                (text, html, inlineImages) \<Rightarrow> (text, rewrite ord html inlineImages)))
      else if ctMediaType h = ''text/plain'' then
        ((if snd body then [] else fst body), rewrite ord [] [])
      else if ctMediaType h = ''text/html'' then
        ([], rewrite ord (if snd body then [] else fst body) [])
      else
        ((if snd body then [] else fst body), rewrite ord [] []))"
| "partsLoop ord [] st = st"
| "partsLoop ord (part # rest) (text, html, inlineImages) =
     (if isInlineImage part then
        partsLoop ord rest
          (text, html,
           if snd (Body part) then inlineImages
           else AList.update (trim (hContentId (Header part)) ''<>'')
                  (dataURI (ctMediaType (Header part)) (fst (Body part))) inlineImages)
      else if recurseInto part then
        (case extractBodyParts ord part of
           (partText, partHTML) \<Rightarrow>
             partsLoop ord rest
               (if partText \<noteq> [] \<and> text = [] then partText else text,
                if partHTML \<noteq> [] then partHTML else html,
                inlineImages))
      else partsLoop ord rest (text, html, inlineImages))"

text \<open>
  The calls of the rewriter. \<open>rewriterDepths ord d e\<close> lists, in the order of execution, the
  nesting depths of the calls of \<open>extractBodyParts\<close> that enter the branch of line 308 while
  \<open>extractBodyParts\<close> runs on \<open>e\<close> at depth \<open>d\<close>; \<open>partsDepths\<close> does so for the loop over the
  parts, whose recursive calls run one level deeper than the loop's own call.
\<close>

fun rewriterDepths :: "(imageMap \<Rightarrow> imageMap) \<Rightarrow> nat \<Rightarrow> entity \<Rightarrow> nat list"
  and partsDepths :: "(imageMap \<Rightarrow> imageMap) \<Rightarrow> nat \<Rightarrow> entity list \<Rightarrow> nat list"
where
  "rewriterDepths ord d (Entity h body mr) =
     (if ctErr h then []
      else if hasPrefix (ctMediaType h) ''multipart/'' then
        (case mr of
           None \<Rightarrow> []
         | Some ps \<Rightarrow>
             partsDepths ord d ps @
             (case partsLoop ord ps ([], [], []) of
                (text, html, inlineImages) \<Rightarrow>
                  if html \<noteq> [] \<and> length inlineImages > 0 then [d] else []))
      else [])"
| "partsDepths ord d [] = []"
| "partsDepths ord d (part # rest) =
     (if isInlineImage part then partsDepths ord d rest
      else if recurseInto part then rewriterDepths ord (Suc d) part @ partsDepths ord d rest
      else partsDepths ord d rest)"

section \<open>Parsing a message\<close>

text \<open>
  \<open>message.Read\<close> is the parser of the go-message library. It is a parameter \<open>msgRead\<close> of the
  model: \<open>None\<close> when it returns an error, otherwise the entity it returns.
\<close>

definition parseEmail ::
  "(imageMap \<Rightarrow> imageMap) \<Rightarrow> (string \<Rightarrow> entity option) \<Rightarrow> string
     \<Rightarrow> string \<times> string \<times> string"
where
  "parseEmail ord msgRead data =
     (case msgRead data of
        None \<Rightarrow> (''No Subject'', data, [])
      | Some entity \<Rightarrow>
          (let subject = (if hSubject (Header entity) \<noteq> [] then hSubject (Header entity)
                          else ''No Subject'');
               (text, html) = extractBodyParts ord entity;
               text = (if text = [] \<and> html \<noteq> [] then html else text)
           in (subject, TrimSpace text, TrimSpace html)))"

section \<open>The SMTP session\<close>

definition MaxEmailSize :: nat where
  "MaxEmailSize = 10 * 1024 * 1024"

record EmailRequest =
  To :: string
  Subject :: string
  Text :: string
  HTML :: string
  AppName :: string

record SMTPSession =
  appName :: string
  mailFrom :: string
  rcptTo :: "string list"
  authUser :: string

datatype error =
  ReadError string
| NoRecipients
| ForwardError string

text \<open>
  The body stream handed to \<open>Data\<close>: it delivers the bytes \<open>stream\<close> and then ends, with
  \<open>io.EOF\<close> when \<open>failure\<close> is \<open>None\<close> and with the error \<open>failure\<close> otherwise (the error comes
  from a \<open>Read\<close> of its own, after the last byte).
\<close>

datatype reader = Reader (stream: string) (failure: "error option")

definition readAllLimited :: "reader \<Rightarrow> nat \<Rightarrow> string \<times> error option" where
  \<comment> \<open>io.ReadAll(io.LimitReader(r, n)): once \<open>n\<close> bytes have been read the limited reader
      reports the end of the stream and reads no further\<close>
  "readAllLimited r n =
     (if length (stream r) < n then (stream r, failure r) else (take n (stream r), None))"

definition NewSession :: SMTPSession where
  "NewSession = \<lparr>appName = [], mailFrom = [], rcptTo = [], authUser = []\<rparr>"

definition Auth :: "SMTPSession \<Rightarrow> string \<Rightarrow> SMTPSession" where
  "Auth s username = s\<lparr>authUser := username, appName := sanitizeAppName username\<rparr>"

definition Mail :: "SMTPSession \<Rightarrow> string \<Rightarrow> SMTPSession" where
  "Mail s from_addr = s\<lparr>mailFrom := from_addr\<rparr>"

definition Rcpt :: "SMTPSession \<Rightarrow> string \<Rightarrow> SMTPSession" where
  "Rcpt s to_addr = s\<lparr>rcptTo := rcptTo s @ [to_addr]\<rparr>"

definition Reset :: "SMTPSession \<Rightarrow> SMTPSession" where
  "Reset s = s\<lparr>mailFrom := [], rcptTo := []\<rparr>"

definition determineAppName :: "SMTPSession \<Rightarrow> string" where
  \<comment> \<open>lines 113 to 126; \<open>strings.Split(s.from, "@")[0]\<close> is the text before the first \<open>@\<close>\<close>
  "determineAppName s =
     (let appName1 =
            (if appName s = [] then
               (if mailFrom s \<noteq> []
                then sanitizeAppName (takeWhile (\<lambda>c. c \<noteq> CHR ''@'') (mailFrom s))
                else [])
             else appName s)
      in if appName1 = [] then ''app'' else appName1)"

text \<open>
  \<open>forwardToAPI\<close> calls the orchestrator over HTTP; its outcome is a parameter \<open>api\<close> of the
  model (\<open>None\<close> for success). \<open>Data\<close> assigns to no field of the session, so the session after
  \<open>Data\<close> is the session before it. \<open>Data\<close> returns its error and the list of the requests
  it has passed to \<open>forwardToAPI\<close>.
\<close>

definition Data ::
  "(imageMap \<Rightarrow> imageMap) \<Rightarrow> (string \<Rightarrow> entity option) \<Rightarrow> (EmailRequest \<Rightarrow> error option)
     \<Rightarrow> SMTPSession \<Rightarrow> reader \<Rightarrow> error option \<times> EmailRequest list"
where
  "Data ord msgRead api s r =
     (case readAllLimited r MaxEmailSize of
        (data, Some e) \<Rightarrow> (Some e, [])
      | (data, None) \<Rightarrow>
          (case parseEmail ord msgRead data of
             (subject, text, html) \<Rightarrow>
               (case rcptTo s of
                  [] \<Rightarrow> (Some NoRecipients, [])
                | recipientEmail # others \<Rightarrow>
                    (let emailReq = \<lparr>To = recipientEmail, Subject = subject, Text = text,
                                      HTML = html, AppName = determineAppName s\<rparr>
                     in (api emailReq, [emailReq])))))"

section \<open>Merge rules in the words of the specification\<close>

definition firstNonEmpty :: "string list \<Rightarrow> string" where
  \<comment> \<open>the first non-empty string of the list, the empty string when there is none\<close>
  "firstNonEmpty xs = (case filter (\<lambda>x. x \<noteq> []) xs of [] \<Rightarrow> [] | x # others \<Rightarrow> x)"

definition lastNonEmpty :: "string list \<Rightarrow> string" where
  \<comment> \<open>the last non-empty string of the list, the empty string when there is none\<close>
  "lastNonEmpty xs = firstNonEmpty (rev xs)"

section \<open>References in the html\<close>

text \<open>
  The rewriting in the words of the specification. A reference to the content-id \<open>k\<close> is the
  text \<open>cid:k\<close>. The html is cut into fields: a first field, then characters each followed
  by a field. Resolving a field replaces it by the data-URI of the map's entry when the field
  is a reference to a content-id of the map, and leaves it as it is otherwise.
\<close>

definition reference :: "string \<Rightarrow> string" where
  "reference contentID = ''cid:'' @ contentID"

fun joinFields :: "string \<Rightarrow> (char \<times> string) list \<Rightarrow> string" where
  "joinFields f [] = f"
| "joinFields f ((q, g) # rest) = f @ q # joinFields g rest"

definition resolveField :: "imageMap \<Rightarrow> string \<Rightarrow> string" where
  "resolveField m f =
     (if hasPrefix f ''cid:''
      then (case map_of m (drop 4 f) of None \<Rightarrow> f | Some uri \<Rightarrow> uri)
      else f)"

definition resolveFields :: "imageMap \<Rightarrow> (char \<times> string) list \<Rightarrow> (char \<times> string) list" where
  "resolveFields m qfs = map (\<lambda>(q, g). (q, resolveField m g)) qfs"

section \<open>Messages used as examples\<close>

definition leaf :: "string \<Rightarrow> string \<Rightarrow> entity" where
  \<comment> \<open>a single part of the given media type whose body reads without error\<close>
  "leaf mediaType content =
     Entity \<lparr>ctMediaType = mediaType, ctParams = [], ctErr = False, hSubject = [],
             hContentId = [], hContentDisposition = []\<rparr> (content, False) None"

definition mimePart :: "string \<Rightarrow> string \<Rightarrow> string \<Rightarrow> string \<Rightarrow> entity" where
  \<comment> \<open>a single part with a Content-Id and a Content-Disposition\<close>
  "mimePart mediaType cid disposition content =
     Entity \<lparr>ctMediaType = mediaType, ctParams = [], ctErr = False, hSubject = [],
             hContentId = cid, hContentDisposition = disposition\<rparr> (content, False) None"

definition multipart :: "string \<Rightarrow> entity list \<Rightarrow> entity" where
  "multipart mediaType ps =
     Entity \<lparr>ctMediaType = mediaType, ctParams = [], ctErr = False, hSubject = [],
             hContentId = [], hContentDisposition = []\<rparr> ([], False) (Some ps)"

definition withSubject :: "string \<Rightarrow> entity \<Rightarrow> entity" where
  \<comment> \<open>the entity with the given Subject header\<close>
  "withSubject subj e = Entity ((Header e)\<lparr>hSubject := subj\<rparr>) (Body e) (Parts e)"

definition malformed :: "string \<Rightarrow> string \<Rightarrow> entity" where
  \<comment> \<open>a single part whose Content-Type cannot be parsed\<close>
  "malformed rawType content =
     Entity \<lparr>ctMediaType = rawType, ctParams = [], ctErr = True, hSubject = [],
             hContentId = [], hContentDisposition = []\<rparr> (content, False) None"

definition unreadable :: "entity \<Rightarrow> entity" where
  \<comment> \<open>the entity with a body whose read fails\<close>
  "unreadable e = Entity (Header e) (fst (Body e), True) (Parts e)"

definition withTypeError :: "entity \<Rightarrow> entity" where
  \<comment> \<open>the entity for which \<open>Header.ContentType()\<close> returns its value together with an error\<close>
  "withTypeError e = Entity ((Header e)\<lparr>ctErr := True\<rparr>) (Body e) (Parts e)"

definition noParse :: "string \<Rightarrow> entity option" where
  \<comment> \<open>a parser that rejects its input\<close>
  "noParse data = None"

definition plainParse :: "string \<Rightarrow> entity option" where
  \<comment> \<open>a parser that reads its input as the body of a text/plain message without headers\<close>
  "plainParse data = Some (leaf ''text/plain'' data)"

definition htmlParse :: "string \<Rightarrow> entity option" where
  \<comment> \<open>a parser that reads its input as the body of a text/html message without headers\<close>
  "htmlParse data = Some (leaf ''text/html'' data)"

definition constParse :: "entity \<Rightarrow> string \<Rightarrow> entity option" where
  \<comment> \<open>a parser that returns the given entity\<close>
  "constParse e data = Some e"

definition apiOk :: "EmailRequest \<Rightarrow> error option" where
  \<comment> \<open>an orchestrator that accepts every request\<close>
  "apiOk req = None"

section \<open>Properties of \<open>sanitizeAppName\<close>\<close>

lemma allowed_not_upper: "allowed c \<Longrightarrow> c \<notin> set ''ABCDEFGHIJKLMNOPQRSTUVWXYZ''"
  unfolding allowed_def by (elim set_ConsD[elim_format] disjE; simp)

lemma allowed_lowerByte: "allowed c \<Longrightarrow> lowerByte c = c"
proof -
  assume "allowed c"
  then have "c \<notin> set ''ABCDEFGHIJKLMNOPQRSTUVWXYZ''" by (rule allowed_not_upper)
  then have "map_of (zip ''ABCDEFGHIJKLMNOPQRSTUVWXYZ'' ''abcdefghijklmnopqrstuvwxyz'') c = None"
    by (simp add: map_of_eq_None_iff)
  then show ?thesis by (simp only: lowerByte_def option.case)
qed

lemma allowed_not_lead: "allowed c \<Longrightarrow> c \<noteq> CHR 0xE2 \<and> c \<noteq> CHR 0xC4"
  unfolding allowed_def by (elim set_ConsD[elim_format] disjE; simp)

lemma toLower_allowed: "\<forall>c\<in>set s. allowed c \<Longrightarrow> toLower s = s"
proof (induction s rule: toLower.induct)
  case 1
  show ?case by simp
next
  case (2 c cs)
  from "2.prems" have c: "allowed c" and cs: "\<forall>x\<in>set cs. allowed x" by simp_all
  from c have "c \<noteq> CHR 0xE2" "c \<noteq> CHR 0xC4" using allowed_not_lead by blast+
  with "2.IH"(3) cs c show ?case by (simp add: allowed_lowerByte)
qed

lemma sanitizeAppName_eq:
  "sanitizeAppName s = (let t = take 20 (filter allowed (toLower s)) in if t = [] then ''app'' else t)"
  by (simp add: sanitizeAppName_def Let_def)

lemma app_allowed: "allowed (CHR ''a'') \<and> allowed (CHR ''p'')"
  by (simp add: allowed_def)

lemma sanitizeAppName_allowed: "c \<in> set (sanitizeAppName s) \<Longrightarrow> allowed c"
proof -
  assume c: "c \<in> set (sanitizeAppName s)"
  show ?thesis
  proof (cases "take 20 (filter allowed (toLower s)) = []")
    case True
    then have "sanitizeAppName s = ''app''" by (simp add: sanitizeAppName_eq)
    with c have "c = CHR ''a'' \<or> c = CHR ''p''" by auto
    then show ?thesis using app_allowed by blast
  next
    case False
    then have "sanitizeAppName s = take 20 (filter allowed (toLower s))"
      by (simp add: sanitizeAppName_eq)
    with c have "c \<in> set (filter allowed (toLower s))" by (auto dest: in_set_takeD)
    then show ?thesis by simp
  qed
qed

lemma sanitizeAppName_length: "length (sanitizeAppName s) \<le> 20"
  by (simp add: sanitizeAppName_eq Let_def)

lemma sanitizeAppName_nonempty: "sanitizeAppName s \<noteq> []"
  by (simp add: sanitizeAppName_eq Let_def)

lemma sanitizeAppName_fixed:
  assumes "\<forall>c\<in>set t. allowed c" "length t \<le> 20" "t \<noteq> []"
  shows "sanitizeAppName t = t"
proof -
  have "toLower t = t" using assms(1) by (rule toLower_allowed)
  moreover have "filter allowed t = t" using assms(1) by simp
  ultimately show ?thesis using assms(2,3) by (simp add: sanitizeAppName_eq Let_def)
qed

lemma sanitizeAppName_example: "sanitizeAppName ''MyApp_123!'' = ''myapp123''"
  by (simp add: sanitizeAppName_def allowed_def lowerByte_def)

text \<open>
  Claim C8. \<open>sanitizeAppName\<close> lower-cases its input, deletes every character outside
  \<open>[a-z0-9-]\<close>, keeps at most the first 20 characters of what is left and returns \<open>app\<close> when
  nothing is left. \<open>MyApp_123!\<close> gives \<open>myapp123\<close>; the empty input, and every input whose
  lower-cased characters are all outside \<open>[a-z0-9-]\<close>, give \<open>app\<close>.
\<close>

theorem sanitizeAppName_spec:
  "sanitizeAppName s =
     (let t = take 20 (filter allowed (toLower s)) in if t = [] then ''app'' else t)
   \<and> sanitizeAppName ''MyApp_123!'' = ''myapp123''
   \<and> sanitizeAppName [] = ''app''
   \<and> ((\<forall>c\<in>set (toLower s). \<not> allowed c) \<longrightarrow> sanitizeAppName s = ''app'')"
proof -
  have "sanitizeAppName [] = ''app''"
    by (simp add: sanitizeAppName_def)
  moreover have "(\<forall>c\<in>set (toLower s). \<not> allowed c) \<longrightarrow> sanitizeAppName s = ''app''"
    by (simp add: sanitizeAppName_eq Let_def)
  ultimately show ?thesis using sanitizeAppName_eq sanitizeAppName_example by blast
qed

theorem sanitizeAppName_spec_witness:
  "toLower ''_! @#'' = ''_! @#''
   \<and> \<not> allowed (CHR ''_'') \<and> \<not> allowed (CHR ''!'') \<and> \<not> allowed (CHR '' '')
   \<and> \<not> allowed (CHR ''@'') \<and> \<not> allowed (CHR ''#'')
   \<and> sanitizeAppName ''_! @#'' = ''app''"
proof -
  have l: "toLower ''_! @#'' = ''_! @#''"
    by (simp add: lowerByte_def)
  have n: "\<not> allowed (CHR ''_'')" "\<not> allowed (CHR ''!'')" "\<not> allowed (CHR '' '')"
    "\<not> allowed (CHR ''@'')" "\<not> allowed (CHR ''#'')"
    by (simp_all add: allowed_def)
  then have h: "\<forall>c\<in>set (toLower ''_! @#''). \<not> allowed c"
    unfolding l by simp
  with sanitizeAppName_spec [of "''_! @#''"] have "sanitizeAppName ''_! @#'' = ''app''"
    by blast
  with l n show ?thesis by blast
qed

text \<open>
  Claim C10. The result of \<open>sanitizeAppName\<close> is never empty, has at most 20 characters, all
  of them in \<open>[a-z0-9-]\<close>, and \<open>sanitizeAppName\<close> maps its own results to themselves.
\<close>

theorem sanitizeAppName_range_idem:
  "sanitizeAppName s \<noteq> [] \<and> length (sanitizeAppName s) \<le> 20
   \<and> (\<forall>c\<in>set (sanitizeAppName s). allowed c)
   \<and> sanitizeAppName (sanitizeAppName s) = sanitizeAppName s"
proof -
  have a: "\<forall>c\<in>set (sanitizeAppName s). allowed c"
    using sanitizeAppName_allowed by blast
  have "sanitizeAppName (sanitizeAppName s) = sanitizeAppName s"
    using a sanitizeAppName_length sanitizeAppName_nonempty by (rule sanitizeAppName_fixed)
  with a show ?thesis
    using sanitizeAppName_nonempty sanitizeAppName_length by blast
qed

theorem sanitizeAppName_range_idem_witness:
  "sanitizeAppName ''MyApp_123!'' = ''myapp123'' \<and> allowed (CHR ''m'')
   \<and> sanitizeAppName ''myapp123'' = ''myapp123''"
proof -
  from sanitizeAppName_range_idem [of "''MyApp_123!''"] show ?thesis
    unfolding sanitizeAppName_example by simp
qed

section \<open>Properties of the session\<close>

lemma Data_read_error:
  "readAllLimited r MaxEmailSize = (d, Some e) \<Longrightarrow> Data ord msgRead api s r = (Some e, [])"
  by (simp add: Data_def)

lemma Data_no_recipient:
  "readAllLimited r MaxEmailSize = (d, None) \<Longrightarrow> rcptTo s = []
   \<Longrightarrow> Data ord msgRead api s r = (Some NoRecipients, [])"
  by (simp add: Data_def split: prod.splits)

lemma Data_forward:
  "readAllLimited r MaxEmailSize = (d, None) \<Longrightarrow> rcptTo s = t # ts
   \<Longrightarrow> parseEmail ord msgRead d = (subject, text, html)
   \<Longrightarrow> Data ord msgRead api s r =
        (api \<lparr>To = t, Subject = subject, Text = text, HTML = html,
               AppName = determineAppName s\<rparr>,
         [\<lparr>To = t, Subject = subject, Text = text, HTML = html,
            AppName = determineAppName s\<rparr>])"
  by (simp add: Data_def Let_def)

lemma Data_cases:
  "(\<exists>e. Data ord msgRead api s r = (Some e, []))
   \<or> (rcptTo s \<noteq> [] \<and> (\<exists>req. Data ord msgRead api s r = (api req, [req])
         \<and> To req = hd (rcptTo s)))"
proof (cases "readAllLimited r MaxEmailSize")
  case (Pair d eo)
  show ?thesis
  proof (cases eo)
    case (Some e)
    with Pair show ?thesis using Data_read_error by blast
  next
    case None
    show ?thesis
    proof (cases "rcptTo s")
      case Nil
      with Pair None show ?thesis using Data_no_recipient by blast
    next
      case (Cons t ts)
      obtain su tx ht where p: "parseEmail ord msgRead d = (su, tx, ht)"
        using prod_cases3 by blast
      from Pair None Cons p show ?thesis
        using Data_forward [of r d s t ts ord msgRead su tx ht api] by auto
    qed
  qed
qed

lemma rcptTo_foldl_Rcpt: "rcptTo (foldl Rcpt s ts) = rcptTo s @ ts"
  by (induction ts arbitrary: s) (simp_all add: Rcpt_def)

text \<open>
  Claim C9. With an empty recipient list \<open>Data\<close> returns an error and passes no request to
  \<open>forwardToAPI\<close>. When \<open>Data\<close> returns without error the recipient list was not empty and
  the one request it has passed on is addressed to the first recipient; after \<open>Rcpt\<close> calls
  on a session without recipients, that is the address of the first \<open>Rcpt\<close>, however many
  followed.
\<close>

theorem Data_first_recipient:
  "(rcptTo s = [] \<longrightarrow>
      (\<exists>e. fst (Data ord msgRead api s r) = Some e) \<and> snd (Data ord msgRead api s r) = [])
   \<and> (fst (Data ord msgRead api s r) = None \<longrightarrow>
        rcptTo s \<noteq> [] \<and> map To (snd (Data ord msgRead api s r)) = [hd (rcptTo s)])
   \<and> (rcptTo s = [] \<longrightarrow>
        fst (Data ord msgRead api (foldl Rcpt (Rcpt s first) others) r) = None \<longrightarrow>
        map To (snd (Data ord msgRead api (foldl Rcpt (Rcpt s first) others) r)) = [first])"
proof (intro conjI impI)
  assume e: "rcptTo s = []"
  with Data_cases [of ord msgRead api s r]
  show "\<exists>e. fst (Data ord msgRead api s r) = Some e" by auto
  from e Data_cases [of ord msgRead api s r]
  show "snd (Data ord msgRead api s r) = []" by auto
next
  assume ok: "fst (Data ord msgRead api s r) = None"
  with Data_cases [of ord msgRead api s r]
  show "rcptTo s \<noteq> []" by auto
  from ok Data_cases [of ord msgRead api s r]
  show "map To (snd (Data ord msgRead api s r)) = [hd (rcptTo s)]" by auto
next
  let ?s = "foldl Rcpt (Rcpt s first) others"
  assume e: "rcptTo s = []" and ok: "fst (Data ord msgRead api ?s r) = None"
  have "rcptTo ?s = first # others"
    using e by (simp add: rcptTo_foldl_Rcpt Rcpt_def)
  then have "hd (rcptTo ?s) = first" by simp
  with ok Data_cases [of ord msgRead api ?s r]
  show "map To (snd (Data ord msgRead api ?s r)) = [first]" by auto
qed

lemma readAll_short: "length bs < MaxEmailSize \<Longrightarrow> readAllLimited (Reader bs f) MaxEmailSize = (bs, f)"
  by (simp add: readAllLimited_def)

lemma short_Hello: "length ''Hello'' < MaxEmailSize"
  by (simp add: MaxEmailSize_def)

lemma parse_plain_Hello: "parseEmail id plainParse ''Hello'' = (''No Subject'', ''Hello'', [])"
  by (simp add: parseEmail_def plainParse_def leaf_def rewrite_def TrimSpace_def spaces_def
      spaceLen_def hasPrefix_def)

theorem Data_first_recipient_witness:
  "rcptTo NewSession = []
   \<and> Data id plainParse apiOk NewSession (Reader ''Hello'' None) = (Some NoRecipients, [])
   \<and> fst (Data id plainParse apiOk (foldl Rcpt (Rcpt NewSession ''a@b'') [''c@d''])
        (Reader ''Hello'' None)) = None
   \<and> map To (snd (Data id plainParse apiOk (foldl Rcpt (Rcpt NewSession ''a@b'') [''c@d''])
        (Reader ''Hello'' None))) = [''a@b'']"
proof -
  have e: "rcptTo NewSession = []" by (simp add: NewSession_def)
  have r: "readAllLimited (Reader ''Hello'' None) MaxEmailSize = (''Hello'', None)"
    using short_Hello by (rule readAll_short)
  have n: "Data id plainParse apiOk NewSession (Reader ''Hello'' None) = (Some NoRecipients, [])"
    using r e by (rule Data_no_recipient)
  have t: "rcptTo (foldl Rcpt (Rcpt NewSession ''a@b'') [''c@d'']) = [''a@b'', ''c@d'']"
    by (simp add: Rcpt_def NewSession_def)
  have ok: "fst (Data id plainParse apiOk (foldl Rcpt (Rcpt NewSession ''a@b'') [''c@d''])
        (Reader ''Hello'' None)) = None"
    using Data_forward [OF r t parse_plain_Hello, of apiOk] by (simp add: apiOk_def)
  from Data_first_recipient [of NewSession id plainParse apiOk "Reader ''Hello'' None" "''a@b''" "[''c@d'']"]
    e ok n show ?thesis by simp
qed

lemma readAll_long:
  "MaxEmailSize \<le> length (stream r)
   \<Longrightarrow> readAllLimited r MaxEmailSize = (take MaxEmailSize (stream r), None)"
  by (simp add: readAllLimited_def)

lemma rcptTo_fresh: "rcptTo (Rcpt (Mail (Reset s) f) t) = [t]"
  by (simp add: Rcpt_def Mail_def Reset_def)

text \<open>
  A read that fails before \<open>MaxEmailSize\<close> bytes have arrived makes \<open>Data\<close> return that error
  without passing a request to \<open>forwardToAPI\<close>, and \<open>Data\<close> leaves the session as it was:
  after \<open>Reset\<close>, \<open>Mail\<close> and \<open>Rcpt\<close> a body that reads without error is parsed and passed on,
  addressed to the new recipient.
\<close>

lemma Data_read_failure:
  "(length (stream r) < MaxEmailSize \<longrightarrow> failure r = Some e \<longrightarrow>
      Data ord msgRead api s r = (Some e, []))
   \<and> (length body < MaxEmailSize \<longrightarrow>
        (\<exists>req. Data ord msgRead api (Rcpt (Mail (Reset s) f) t) (Reader body None)
                 = (api req, [req])
               \<and> To req = t \<and> (Subject req, Text req, HTML req) = parseEmail ord msgRead body))"
proof (intro conjI impI)
  assume "length (stream r) < MaxEmailSize" "failure r = Some e"
  then have "readAllLimited r MaxEmailSize = (stream r, Some e)"
    by (simp add: readAllLimited_def)
  then show "Data ord msgRead api s r = (Some e, [])" by (rule Data_read_error)
next
  assume "length body < MaxEmailSize"
  then have r: "readAllLimited (Reader body None) MaxEmailSize = (body, None)"
    by (rule readAll_short)
  obtain su tx ht where p: "parseEmail ord msgRead body = (su, tx, ht)"
    using prod_cases3 by blast
  from Data_forward [OF r rcptTo_fresh p, of api] p
  show "\<exists>req. Data ord msgRead api (Rcpt (Mail (Reset s) f) t) (Reader body None)
                 = (api req, [req])
               \<and> To req = t \<and> (Subject req, Text req, HTML req) = parseEmail ord msgRead body"
    by auto
qed

lemma replicate_long: "MaxEmailSize \<le> length (stream (Reader (replicate (MaxEmailSize + 1) (CHR ''x'')) None))"
  by simp

lemma take_long: "take MaxEmailSize (replicate (MaxEmailSize + 1) (CHR ''x'')) = replicate MaxEmailSize (CHR ''x'')"
  by (simp only: take_replicate) (simp add: min_def)

lemma determineAppName_example: "determineAppName (Rcpt (Mail NewSession ''vaultwarden@example.org'') ''user@example.org'') = ''vaultwarden''"
  by (simp add: determineAppName_def Rcpt_def Mail_def NewSession_def sanitizeAppName_def
      allowed_def lowerByte_def)

text \<open>
  Claim C5. The program sets \<open>MaxEmailSize\<close> as the limit of the transport and reads the body
  through a reader limited to the same \<open>MaxEmailSize\<close>, which ends the stream at the limit
  without an error. On a body of \<open>MaxEmailSize + 1\<close> bytes, in a session with one recipient,
  \<open>Data\<close> returns no error and passes a request to \<open>forwardToAPI\<close> whose text is the first
  \<open>MaxEmailSize\<close> bytes of the body; the claim asks for a rejection and no delivery attempt.
\<close>

theorem Data_oversize_accepted:
  "length (replicate (MaxEmailSize + 1) (CHR ''x'')) > MaxEmailSize
   \<and> Data id noParse apiOk (Rcpt (Mail NewSession ''vaultwarden@example.org'') ''user@example.org'')
       (Reader (replicate (MaxEmailSize + 1) (CHR ''x'')) None)
     = (None, [\<lparr>To = ''user@example.org'', Subject = ''No Subject'',
                Text = replicate MaxEmailSize (CHR ''x''), HTML = [],
                AppName = ''vaultwarden''\<rparr>])"
proof -
  let ?s = "Rcpt (Mail NewSession ''vaultwarden@example.org'') ''user@example.org''"
  let ?r = "Reader (replicate (MaxEmailSize + 1) (CHR ''x'')) None"
  have r: "readAllLimited ?r MaxEmailSize = (replicate MaxEmailSize (CHR ''x''), None)"
    using readAll_long [OF replicate_long] by (simp only: reader.sel take_long)
  have t: "rcptTo ?s = [''user@example.org'']"
    by (simp add: Rcpt_def Mail_def NewSession_def)
  have p: "parseEmail id noParse (replicate MaxEmailSize (CHR ''x''))
             = (''No Subject'', replicate MaxEmailSize (CHR ''x''), [])"
    by (simp add: parseEmail_def noParse_def)
  from Data_forward [OF r t p, of apiOk] show ?thesis
    by (simp add: apiOk_def determineAppName_example)
qed

section \<open>Steps of the traversal\<close>

declare partsLoop.simps(2) [simp del]

lemma partsLoop_inline:
  "isInlineImage p \<Longrightarrow> \<not> snd (Body p) \<Longrightarrow>
     partsLoop ord (p # ys) (t, h, m)
       = partsLoop ord ys
           (t, h, AList.update (trim (hContentId (Header p)) ''<>'')
                    (dataURI (ctMediaType (Header p)) (fst (Body p))) m)"
  by (simp add: partsLoop.simps(2))

lemma partsLoop_inline_unreadable:
  "isInlineImage p \<Longrightarrow> snd (Body p) \<Longrightarrow>
     partsLoop ord (p # ys) (t, h, m) = partsLoop ord ys (t, h, m)"
  by (simp add: partsLoop.simps(2))

lemma partsLoop_recurse:
  "\<not> isInlineImage p \<Longrightarrow> recurseInto p \<Longrightarrow> extractBodyParts ord p = (pt, ph) \<Longrightarrow>
     partsLoop ord (p # ys) (t, h, m)
       = partsLoop ord ys
           (if pt \<noteq> [] \<and> t = [] then pt else t, if ph \<noteq> [] then ph else h, m)"
  by (simp add: partsLoop.simps(2))

lemma partsLoop_skip:
  "\<not> isInlineImage p \<Longrightarrow> \<not> recurseInto p \<Longrightarrow> partsLoop ord (p # ys) st = partsLoop ord ys st"
  by (cases st) (simp add: partsLoop.simps(2))

lemma partsLoop_append:
  "partsLoop ord (xs @ ys) st = partsLoop ord ys (partsLoop ord xs st)"
proof (induction xs arbitrary: st)
  case Nil
  show ?case by simp
next
  case (Cons x xs)
  obtain t h m where st: "st = (t, h, m)" using prod_cases3 by blast
  show ?case unfolding st by (simp add: partsLoop.simps(2) Cons.IH split: prod.splits)
qed

lemma rewrite_empty_map [simp]: "rewrite ord html [] = html"
  by (simp add: rewrite_def)

lemma rewrite_empty_html [simp]: "rewrite ord [] m = []"
  by (simp add: rewrite_def)

lemma text_not_multipart:
  "\<not> hasPrefix ''text/html'' ''multipart/''" "\<not> hasPrefix ''text/plain'' ''multipart/''"
  by (simp_all add: hasPrefix_def)

lemma extract_html_leaf:
  "\<not> ctErr hdr \<Longrightarrow> ctMediaType hdr = ''text/html''
   \<Longrightarrow> extractBodyParts ord (Entity hdr (b, False) mr) = ([], b)"
  by (simp add: text_not_multipart)

lemma extract_plain_leaf:
  "\<not> ctErr hdr \<Longrightarrow> ctMediaType hdr = ''text/plain''
   \<Longrightarrow> extractBodyParts ord (Entity hdr (b, False) mr) = (b, [])"
  by (simp add: text_not_multipart)

lemma extract_leaf_html [simp]: "extractBodyParts ord (leaf ''text/html'' b) = ([], b)"
  by (simp add: leaf_def text_not_multipart)

lemma extract_leaf_plain [simp]: "extractBodyParts ord (leaf ''text/plain'' b) = (b, [])"
  by (simp add: leaf_def text_not_multipart)

lemma leaf_default [simp]: "\<not> isInlineImage (leaf mt b)" "recurseInto (leaf mt b)"
  by (simp_all add: leaf_def isInlineImage_def recurseInto_def)

lemma partsLoop_leaf_html [simp]:
  "partsLoop ord (leaf ''text/html'' b # ys) (t, h, m)
     = partsLoop ord ys (t, if b \<noteq> [] then b else h, m)"
  using partsLoop_recurse [OF leaf_default extract_leaf_html] by simp

lemma partsLoop_leaf_plain [simp]:
  "partsLoop ord (leaf ''text/plain'' b # ys) (t, h, m)
     = partsLoop ord ys (if b \<noteq> [] \<and> t = [] then b else t, h, m)"
  using partsLoop_recurse [OF leaf_default extract_leaf_plain] by simp

lemma extract_multipart:
  "hasPrefix mt ''multipart/'' \<Longrightarrow>
     extractBodyParts ord (multipart mt ps)
       = (case partsLoop ord ps ([], [], []) of (t, h, m) \<Rightarrow> (t, rewrite ord h m))"
  by (simp add: multipart_def)


section \<open>Properties of \<open>parseEmail\<close>\<close>

lemma parseEmail_promote:
  "msgRead data = Some e \<Longrightarrow> extractBodyParts ord e = ([], h) \<Longrightarrow> h \<noteq> []
   \<Longrightarrow> parseEmail ord msgRead data
        = (if hSubject (Header e) \<noteq> [] then hSubject (Header e) else ''No Subject'',
           TrimSpace h, TrimSpace h)"
  by (simp add: parseEmail_def)

lemma parseEmail_html_only:
  "msgRead data = Some e \<Longrightarrow> extractBodyParts ord e = ([], h)
   \<Longrightarrow> snd (parseEmail ord msgRead data) = (TrimSpace h, TrimSpace h)"
  by (simp add: parseEmail_def)

lemma parseEmail_error: "msgRead data = None \<Longrightarrow> parseEmail ord msgRead data = (''No Subject'', data, [])"
  by (simp add: parseEmail_def)

lemma parseEmail_subject:
  "msgRead data = Some e \<Longrightarrow>
     fst (parseEmail ord msgRead data)
       = (if hSubject (Header e) \<noteq> [] then hSubject (Header e) else ''No Subject'')"
  by (simp add: parseEmail_def Let_def split: prod.splits)

section \<open>Attachments\<close>

lemma attachment_not_recursed:
  "hasPrefix (hContentDisposition (Header p)) ''attachment'' \<Longrightarrow> \<not> recurseInto p"
  by (auto simp: recurseInto_def hasPrefix_def)

lemma pdf_attachment:
  "hasPrefix (hContentDisposition (Header (mimePart ''application/pdf'' [] ''attachment; filename=a.pdf'' ''PDF''))) ''attachment''"
  "\<not> isInlineImage (mimePart ''application/pdf'' [] ''attachment; filename=a.pdf'' ''PDF'')"
  by (simp_all add: mimePart_def hasPrefix_def isInlineImage_def)

lemma png_inline:
  "isInlineImage (mimePart ''image/png'' ''<logo>'' disposition content)"
  by (simp add: mimePart_def hasPrefix_def isInlineImage_def)

lemma png_attachment_loop:
  "partsLoop ord (mimePart ''image/png'' ''<logo>'' disposition ''PNG'' # ys) (t, h, m)
     = partsLoop ord ys (t, h, AList.update ''logo'' ''data:image/png;base64,UE5H'' m)"
proof -
  have "trim ''<logo>'' ''<>'' = ''logo''" by (simp add: trim_def)
  moreover have "dataURI ''image/png'' ''PNG'' = ''data:image/png;base64,UE5H''"
    by (simp add: dataURI_def sextet_def encodeStd_def)
  ultimately show ?thesis
    using partsLoop_inline [OF png_inline, of disposition "''PNG''" ord ys t h m]
    by (simp add: mimePart_def)
qed

lemma mixed_multipart: "hasPrefix ''multipart/mixed'' ''multipart/''"
  by (simp add: hasPrefix_def)

text \<open>
  Claim C1 as it is stated fails on a part of type image/png with Content-Id \<open><logo>\<close> and
  Content-Disposition \<open>attachment; filename=logo.png\<close>: the part is entered into the inline
  image map, and the html of the message differs from the html of the message without the
  part.
\<close>

theorem image_attachment_collected:
  "hasPrefix (hContentDisposition (Header
       (mimePart ''image/png'' ''<logo>'' ''attachment; filename=logo.png'' ''PNG''))) ''attachment''
   \<and> partsLoop id [mimePart ''image/png'' ''<logo>'' ''attachment; filename=logo.png'' ''PNG'']
         ([], [], [])
       = ([], [], [(''logo'', ''data:image/png;base64,UE5H'')])
   \<and> extractBodyParts id (multipart ''multipart/mixed''
         [leaf ''text/html'' ''<img src=cid:logo>'',
          mimePart ''image/png'' ''<logo>'' ''attachment; filename=logo.png'' ''PNG''])
       = ([], ''<img src=data:image/png;base64,UE5H>'')
   \<and> extractBodyParts id (multipart ''multipart/mixed'' [leaf ''text/html'' ''<img src=cid:logo>''])
       = ([], ''<img src=cid:logo>'')"
proof -
  have 1: "hasPrefix (hContentDisposition (Header
       (mimePart ''image/png'' ''<logo>'' ''attachment; filename=logo.png'' ''PNG''))) ''attachment''"
    by (simp add: mimePart_def hasPrefix_def)
  have 2: "partsLoop id [mimePart ''image/png'' ''<logo>'' ''attachment; filename=logo.png'' ''PNG'']
         ([], [], [])
       = ([], [], [(''logo'', ''data:image/png;base64,UE5H'')])"
    by (simp add: png_attachment_loop)
  have 3: "extractBodyParts id (multipart ''multipart/mixed''
         [leaf ''text/html'' ''<img src=cid:logo>'',
          mimePart ''image/png'' ''<logo>'' ''attachment; filename=logo.png'' ''PNG''])
       = ([], ''<img src=data:image/png;base64,UE5H>'')"
    by (simp add: extract_multipart [OF mixed_multipart] png_attachment_loop rewrite_def
        hasPrefix_def)
  have 4: "extractBodyParts id (multipart ''multipart/mixed'' [leaf ''text/html'' ''<img src=cid:logo>''])
       = ([], ''<img src=cid:logo>'')"
    by (simp add: extract_multipart [OF mixed_multipart])
  from 1 2 3 4 show ?thesis by blast
qed

section \<open>The merge of the parts\<close>

lemma firstNonEmpty_Nil [simp]: "firstNonEmpty [] = []"
  by (simp add: firstNonEmpty_def)

lemma firstNonEmpty_Cons [simp]:
  "firstNonEmpty (x # xs) = (if x \<noteq> [] then x else firstNonEmpty xs)"
  by (simp add: firstNonEmpty_def)

lemma firstNonEmpty_append:
  "firstNonEmpty (xs @ ys) = (if firstNonEmpty xs \<noteq> [] then firstNonEmpty xs else firstNonEmpty ys)"
  by (induction xs) simp_all

lemma lastNonEmpty_Nil [simp]: "lastNonEmpty [] = []"
  by (simp add: lastNonEmpty_def)

lemma lastNonEmpty_Cons [simp]:
  "lastNonEmpty (x # xs) = (if lastNonEmpty xs \<noteq> [] then lastNonEmpty xs else x)"
  by (simp add: lastNonEmpty_def firstNonEmpty_append)

lemma firstNonEmpty_first:
  "\<forall>t\<in>set as. t = [] \<Longrightarrow> x \<noteq> [] \<Longrightarrow> firstNonEmpty (as @ x # bs) = x"
  by (induction as) simp_all

lemma lastNonEmpty_last:
  "\<forall>t\<in>set bs. t = [] \<Longrightarrow> x \<noteq> [] \<Longrightarrow> lastNonEmpty (as @ x # bs) = x"
proof -
  assume a: "\<forall>t\<in>set bs. t = []" "x \<noteq> []"
  then have "firstNonEmpty (rev bs @ x # rev as) = x"
    by (intro firstNonEmpty_first) simp_all
  then show ?thesis by (simp add: lastNonEmpty_def)
qed

lemma partsLoop_default:
  "\<forall>p\<in>set ps. \<not> isInlineImage p \<and> recurseInto p \<Longrightarrow>
     partsLoop ord ps (t, h, m)
       = (if t \<noteq> [] then t else firstNonEmpty (map (\<lambda>p. fst (extractBodyParts ord p)) ps),
          if lastNonEmpty (map (\<lambda>p. snd (extractBodyParts ord p)) ps) \<noteq> []
          then lastNonEmpty (map (\<lambda>p. snd (extractBodyParts ord p)) ps) else h,
          m)"
proof (induction ps arbitrary: t h)
  case Nil
  show ?case by simp
next
  case (Cons p ps)
  obtain pt ph where e: "extractBodyParts ord p = (pt, ph)" by (cases "extractBodyParts ord p")
  from Cons.prems have p: "\<not> isInlineImage p" "recurseInto p"
    and ps: "\<forall>q\<in>set ps. \<not> isInlineImage q \<and> recurseInto q" by simp_all
  show ?case
    unfolding partsLoop_recurse [OF p e] Cons.IH [OF ps] by (simp add: e)
qed

section \<open>The calls of the rewriter\<close>

lemma depths_bounds:
  shows "\<forall>x\<in>set (rewriterDepths ord d e). d \<le> x"
    and "\<forall>x\<in>set (partsDepths ord d ps). d < x"
proof (induction ord d e and ord d ps rule: rewriterDepths_partsDepths.induct)
  case (1 ord d h body mr)
  show ?case
  proof (cases "\<not> ctErr h \<and> hasPrefix (ctMediaType h) ''multipart/'' \<and> mr \<noteq> None")
    case True
    then obtain ps where mr: "mr = Some ps" by auto
    with True "1.IH" have "\<forall>x\<in>set (partsDepths ord d ps). d < x" by blast
    then have "\<forall>x\<in>set (partsDepths ord d ps). d \<le> x" by (simp add: less_imp_le)
    then show ?thesis using True mr by (auto split: prod.splits)
  next
    case False
    then have "rewriterDepths ord d (Entity h body mr) = []" by (cases mr; cases "ctErr h"; simp)
    then show ?thesis by simp
  qed
next
  case (2 ord d)
  show ?case by simp
next
  case (3 ord d part rest)
  show ?case
  proof (cases "isInlineImage part")
    case True
    with "3.IH"(1) show ?thesis by simp
  next
    case False
    note ni = this
    show ?thesis
    proof (cases "recurseInto part")
      case True
      from "3.IH"(2) [OF ni True] have "\<forall>x\<in>set (rewriterDepths ord (Suc d) part). d < x"
        by (simp add: Suc_le_eq)
      with "3.IH"(3) [OF ni True] ni True show ?thesis by auto
    next
      case False
      with "3.IH"(4) [OF ni False] ni show ?thesis by simp
    qed
  qed
qed

lemma multipart_default [simp]:
  "\<not> isInlineImage (multipart mt ps)" "recurseInto (multipart mt ps)"
  by (simp_all add: multipart_def isInlineImage_def recurseInto_def)

lemma multipart_sel [simp]:
  "ctErr (Header (multipart mt ps)) = False" "ctMediaType (Header (multipart mt ps)) = mt"
  "Parts (multipart mt ps) = Some ps"
  by (simp_all add: multipart_def)

lemma rewriterDepths_leaf_part [simp]: "rewriterDepths ord d (leaf mt b) = []"
  by (simp add: leaf_def)

lemma related_multipart: "hasPrefix ''multipart/related'' ''multipart/''"
  by (simp add: hasPrefix_def)

lemma rewrite_logo:
  "rewrite id ''<img src=cid:logo>'' [(''logo'', ''data:image/png;base64,UE5H'')]
     = ''<img src=data:image/png;base64,UE5H>''"
  by (simp add: rewrite_def hasPrefix_def)

lemma related_loop:
  "partsLoop id [leaf ''text/html'' ''<img src=cid:logo>'',
                 mimePart ''image/png'' ''<logo>'' ''inline'' ''PNG''] ([], [], [])
     = ([], ''<img src=cid:logo>'', [(''logo'', ''data:image/png;base64,UE5H'')])"
  by (simp add: png_attachment_loop)

lemma related_extract:
  "extractBodyParts id (multipart ''multipart/related''
       [leaf ''text/html'' ''<img src=cid:logo>'',
        mimePart ''image/png'' ''<logo>'' ''inline'' ''PNG''])
     = ([], ''<img src=data:image/png;base64,UE5H>'')"
  unfolding extract_multipart [OF related_multipart] related_loop by (simp add: rewrite_logo)

lemma rewriterDepths_multipart:
  "\<not> ctErr (Header e) \<Longrightarrow> hasPrefix (ctMediaType (Header e)) ''multipart/'' \<Longrightarrow> Parts e = Some ps
   \<Longrightarrow> partsLoop ord ps ([], [], []) = (t, h, m)
   \<Longrightarrow> rewriterDepths ord d e = partsDepths ord d ps @ (if h \<noteq> [] \<and> m \<noteq> [] then [d] else [])"
  by (cases e) simp

lemma rewriterDepths_leaf:
  "ctErr (Header e) \<or> \<not> hasPrefix (ctMediaType (Header e)) ''multipart/'' \<or> Parts e = None
   \<Longrightarrow> rewriterDepths ord d e = []"
  by (cases e) auto

lemma extract_multipart_general:
  "\<not> ctErr (Header e) \<Longrightarrow> hasPrefix (ctMediaType (Header e)) ''multipart/'' \<Longrightarrow> Parts e = Some ps
   \<Longrightarrow> partsLoop ord ps ([], [], []) = (t, h, m)
   \<Longrightarrow> extractBodyParts ord e = (t, rewrite ord h m)"
  by (cases e) simp

text \<open>
  Claim C3, as the code has it. The rewriter is the last step of every call of
  \<open>extractBodyParts\<close>, the nested calls included. A call on a multipart entity enters it
  exactly when the inline image map of that call is not empty and the html accumulated by
  that call is not empty, after the call has gone through all of its parts, so after every
  rewrite done by the calls nested in it; the html the call returns is the html it has
  accumulated, rewritten with its own map. A call on any other entity does not enter it.
\<close>

theorem rewriter_at_every_level:
  "(\<forall>x\<in>set (rewriterDepths ord d e). d \<le> x)
   \<and> (\<not> ctErr (Header e) \<longrightarrow> hasPrefix (ctMediaType (Header e)) ''multipart/'' \<longrightarrow>
        Parts e = Some ps \<longrightarrow> partsLoop ord ps ([], [], []) = (t, h, m) \<longrightarrow>
        rewriterDepths ord d e
          = partsDepths ord d ps @ (if h \<noteq> [] \<and> m \<noteq> [] then [d] else [])
        \<and> (\<forall>x\<in>set (partsDepths ord d ps). d < x)
        \<and> extractBodyParts ord e = (t, rewrite ord h m))
   \<and> (ctErr (Header e) \<or> \<not> hasPrefix (ctMediaType (Header e)) ''multipart/'' \<or> Parts e = None
        \<longrightarrow> rewriterDepths ord d e = [])"
proof (intro conjI impI)
  show "\<forall>x\<in>set (rewriterDepths ord d e). d \<le> x" by (rule depths_bounds)
next
  assume a: "\<not> ctErr (Header e)" "hasPrefix (ctMediaType (Header e)) ''multipart/''"
    "Parts e = Some ps" "partsLoop ord ps ([], [], []) = (t, h, m)"
  then show "rewriterDepths ord d e
          = partsDepths ord d ps @ (if h \<noteq> [] \<and> m \<noteq> [] then [d] else [])"
    by (rule rewriterDepths_multipart)
  show "\<forall>x\<in>set (partsDepths ord d ps). d < x" by (rule depths_bounds)
  from a show "extractBodyParts ord e = (t, rewrite ord h m)"
    by (rule extract_multipart_general)
next
  assume "ctErr (Header e) \<or> \<not> hasPrefix (ctMediaType (Header e)) ''multipart/'' \<or> Parts e = None"
  then show "rewriterDepths ord d e = []" by (rule rewriterDepths_leaf)
qed


text \<open>
  Claim C3 as it is stated fails on a multipart/mixed message whose first part is a
  multipart/related with an html part and an inline image, and whose second part is an
  attachment: the only call of the rewriter is the one of the nested call, at depth 1; the
  top-level call has an empty inline image map and receives the html already rewritten.
\<close>

theorem rewriter_in_nested_call:
  "rewriterDepths id 0 (multipart ''multipart/mixed''
       [multipart ''multipart/related''
          [leaf ''text/html'' ''<img src=cid:logo>'',
           mimePart ''image/png'' ''<logo>'' ''inline'' ''PNG''],
        mimePart ''application/pdf'' [] ''attachment; filename=a.pdf'' ''PDF''])
     = [1]
   \<and> partsLoop id
       [multipart ''multipart/related''
          [leaf ''text/html'' ''<img src=cid:logo>'',
           mimePart ''image/png'' ''<logo>'' ''inline'' ''PNG''],
        mimePart ''application/pdf'' [] ''attachment; filename=a.pdf'' ''PDF''] ([], [], [])
     = ([], ''<img src=data:image/png;base64,UE5H>'', [])"
proof -
  let ?rel = "multipart ''multipart/related''
          [leaf ''text/html'' ''<img src=cid:logo>'',
           mimePart ''image/png'' ''<logo>'' ''inline'' ''PNG'']"
  let ?pdf = "mimePart ''application/pdf'' [] ''attachment; filename=a.pdf'' ''PDF''"
  have skip: "\<not> isInlineImage ?pdf" "\<not> recurseInto ?pdf"
    using pdf_attachment attachment_not_recursed by blast+
  have l: "partsLoop id [?rel, ?pdf] ([], [], [])
     = ([], ''<img src=data:image/png;base64,UE5H>'', [])"
    using partsLoop_recurse [OF multipart_default related_extract, of "[?pdf]" "[]" "[]" "[]"]
    by (simp add: partsLoop_skip [OF skip])
  have n: "rewriterDepths id (Suc 0) ?rel = [Suc 0]"
    using rewriterDepths_multipart [where e = ?rel and ord = id and d = "Suc 0", OF _ _ _ related_loop]
    by (simp add: related_multipart png_inline)
  have "rewriterDepths id 0 (multipart ''multipart/mixed'' [?rel, ?pdf]) = [1]"
    using rewriterDepths_multipart [where e = "multipart ''multipart/mixed'' [?rel, ?pdf]"
        and ord = id and d = 0, OF _ _ _ l]
    by (simp add: mixed_multipart skip n)
  with l show ?thesis by blast
qed

theorem rewriter_at_every_level_witness:
  "hasPrefix ''multipart/related'' ''multipart/''
   \<and> rewriterDepths id (Suc 0) (multipart ''multipart/related''
         [leaf ''text/html'' ''<img src=cid:logo>'',
          mimePart ''image/png'' ''<logo>'' ''inline'' ''PNG'']) = [Suc 0]
   \<and> extractBodyParts id (multipart ''multipart/related''
         [leaf ''text/html'' ''<img src=cid:logo>'',
          mimePart ''image/png'' ''<logo>'' ''inline'' ''PNG''])
       = ([], ''<img src=data:image/png;base64,UE5H>'')
   \<and> Parts (leaf ''text/html'' ''x'') = None
   \<and> rewriterDepths id 0 (leaf ''text/html'' ''x'') = []"
proof -
  let ?ps = "[leaf ''text/html'' ''<img src=cid:logo>'',
           mimePart ''image/png'' ''<logo>'' ''inline'' ''PNG'']"
  let ?rel = "multipart ''multipart/related'' ?ps"
  let ?m = "[(''logo'', ''data:image/png;base64,UE5H'')]"
  note th = rewriter_at_every_level
  have p: "partsDepths id (Suc 0) ?ps = []"
    by (simp add: png_inline)
  have hyp: "\<not> ctErr (Header ?rel)" "hasPrefix (ctMediaType (Header ?rel)) ''multipart/''"
    "Parts ?rel = Some ?ps"
    by (simp_all add: related_multipart)
  from th [where e = ?rel and ord = id and d = "Suc 0" and t = "[]"
      and h = "''<img src=cid:logo>''" and m = ?m and ps = ?ps] hyp related_loop
  have a: "rewriterDepths id (Suc 0) ?rel
        = partsDepths id (Suc 0) ?ps
            @ (if ''<img src=cid:logo>'' \<noteq> [] \<and> ?m \<noteq> [] then [Suc 0] else [])"
    and b: "extractBodyParts id ?rel = ([], rewrite id ''<img src=cid:logo>'' ?m)"
    by blast+
  from a have 1: "rewriterDepths id (Suc 0) ?rel = [Suc 0]" unfolding p by simp
  from b have 2: "extractBodyParts id ?rel = ([], ''<img src=data:image/png;base64,UE5H>'')"
    unfolding rewrite_logo .
  have 3: "Parts (leaf ''text/html'' ''x'') = None" by (simp add: leaf_def)
  from th [where e = "leaf ''text/html'' ''x''" and ord = id and d = 0] 3
  have 4: "rewriterDepths id 0 (leaf ''text/html'' ''x'') = []" by blast
  from related_multipart 1 2 3 4 show ?thesis by blast
qed

section \<open>Substrings and replacement\<close>

lemma hasPrefix_Nil [simp]: "hasPrefix s [] = True"
  by (simp add: hasPrefix_def)

lemma hasPrefix_Nil_Cons [simp]: "hasPrefix [] (y # p) = False"
  by (simp add: hasPrefix_def)

lemma hasPrefix_Cons_Cons [simp]: "hasPrefix (x # s) (y # p) = (x = y \<and> hasPrefix s p)"
  by (simp add: hasPrefix_def)

lemma hasPrefix_length: "hasPrefix s p \<Longrightarrow> length p \<le> length s"
  by (induction s arbitrary: p) (case_tac p, simp_all)+

lemma hasPrefix_self_append [simp]: "hasPrefix (p @ b) p"
  by (induction p) simp_all

lemma hasPrefix_delim: "q \<notin> set p \<Longrightarrow> hasPrefix (a @ q # b) p = hasPrefix a p"
proof (induction a arbitrary: p)
  case Nil
  then show ?case by (cases p) auto
next
  case (Cons x a)
  then show ?case by (cases p) auto
qed

lemma contains_Nil [simp]: "contains s []"
  by (cases s) simp_all

lemma contains_delim:
  "q \<notin> set sub \<Longrightarrow> contains (a @ q # b) sub = (contains a sub \<or> contains b sub)"
proof (induction a)
  case Nil
  then show ?case using hasPrefix_delim [of q sub "[]" b] by (cases sub) auto
next
  case (Cons x a)
  then show ?case using hasPrefix_delim [of q sub "x # a" b] by auto
qed

lemma hasPrefix_append_left: "hasPrefix s (x @ y) \<Longrightarrow> hasPrefix s x"
  by (induction x arbitrary: s) (simp, case_tac s, simp_all)

lemma contains_append_left: "contains s (x @ y) \<Longrightarrow> contains s x"
proof (induction s)
  case Nil
  then show ?case by simp
next
  case (Cons c s)
  then show ?case using hasPrefix_append_left [of "c # s" x y] by auto
qed

lemma hasPrefix_set: "hasPrefix s p \<Longrightarrow> set p \<subseteq> set s"
  by (induction s arbitrary: p) (case_tac p, auto)+

lemma contains_set: "contains s sub \<Longrightarrow> set sub \<subseteq> set s"
proof (induction s)
  case Nil
  then show ?case by simp
next
  case (Cons c s)
  then show ?case using hasPrefix_set [of "c # s" sub] by auto
qed

lemma contains_prefix: "contains (s @ b) s"
  by (cases s) simp_all

lemma contains_middle: "contains (a @ s @ b) s"
  by (induction a) (simp_all add: contains_prefix)

lemma drop_append_le: "n \<le> length xs \<Longrightarrow> drop n (xs @ ys) = drop n xs @ ys"
  by simp

lemma replaceAll_absent: "\<not> contains s old \<Longrightarrow> replaceAll s old new = s"
  by (induction s old new rule: replaceAll.induct) auto

lemma replaceAll_self: "old \<noteq> [] \<Longrightarrow> replaceAll old old new = new"
proof -
  assume "old \<noteq> []"
  then obtain c cs where o: "old = c # cs" by (cases old) auto
  have "hasPrefix (c # cs) (c # cs)" using hasPrefix_self_append [of "c # cs" "[]"] by simp
  then show ?thesis unfolding o by simp
qed

lemma replaceAll_delim:
  "old \<noteq> [] \<Longrightarrow> q \<notin> set old \<Longrightarrow>
     replaceAll (a @ q # b) old new = replaceAll a old new @ q # replaceAll b old new"
proof (induction a old new rule: replaceAll.induct)
  case (1 old new)
  then have "\<not> hasPrefix (q # b) old" by (cases old) auto
  then show ?case by simp
next
  case (2 c cs old new)
  show ?case
  proof (cases "hasPrefix (c # cs) old")
    case True
    then have l: "length old \<le> length (c # cs)" by (rule hasPrefix_length)
    have p: "hasPrefix ((c # cs) @ q # b) old"
      using True hasPrefix_delim [OF "2.prems"(2), of "c # cs" b] by simp
    have d: "drop (length old) ((c # cs) @ q # b) = drop (length old) (c # cs) @ q # b"
      using l by (rule drop_append_le)
    have "replaceAll ((c # cs) @ q # b) old new
            = new @ replaceAll (drop (length old) ((c # cs) @ q # b)) old new"
      using p "2.prems"(1) by simp
    also have "\<dots> = new @ replaceAll (drop (length old) (c # cs)) old new @ q # replaceAll b old new"
      unfolding d using "2.IH"(1) "2.prems" True by simp
    finally show ?thesis using True "2.prems"(1) by simp
  next
    case False
    then have p: "\<not> hasPrefix ((c # cs) @ q # b) old"
      using hasPrefix_delim [OF "2.prems"(2), of "c # cs" b] by simp
    then have "replaceAll ((c # cs) @ q # b) old new = c # replaceAll (cs @ q # b) old new"
      by simp
    then show ?thesis using "2.IH"(2) "2.prems" False by simp
  qed
qed

lemma sextet_alphabet: "sextet n \<in> set encodeStd"
proof -
  have "n mod 64 < length encodeStd" by (simp add: encodeStd_def)
  then show ?thesis unfolding sextet_def by (rule nth_mem)
qed

lemma sextet_no_colon: "sextet n \<noteq> CHR '':''"
proof -
  have "CHR '':'' \<notin> set encodeStd" by (simp add: encodeStd_def)
  with sextet_alphabet [of n] show ?thesis by metis
qed

lemma EncodeToString_no_colon: "CHR '':'' \<notin> set (EncodeToString body)"
  by (induction body rule: EncodeToString.induct)
    (simp_all add: Let_def sextet_no_colon sextet_no_colon [THEN not_sym])

lemma dataURI_no_reference:
  assumes "CHR '':'' \<notin> set mt"
  shows "\<not> contains (dataURI mt body) (''cid:'' @ k)"
proof
  assume "contains (dataURI mt body) (''cid:'' @ k)"
  then have c: "contains (dataURI mt body) ''cid:''" by (rule contains_append_left)
  have u: "dataURI mt body = ''dat'' @ CHR ''a'' # ('':'' @ mt @ CHR '';'' # (''base64,'' @ EncodeToString body))"
    by (simp add: dataURI_def)
  have "contains ('':'' @ mt @ CHR '';'' # (''base64,'' @ EncodeToString body)) ''cid:''"
    using c unfolding u by (subst (asm) contains_delim) simp_all
  then have "contains (mt @ CHR '';'' # (''base64,'' @ EncodeToString body)) ''cid:''"
    by simp
  then have "contains mt ''cid:'' \<or> contains (''base64,'' @ EncodeToString body) ''cid:''"
    by (subst (asm) contains_delim) simp_all
  then show False
  proof
    assume "contains mt ''cid:''"
    then have "set ''cid:'' \<subseteq> set mt" by (rule contains_set)
    with assms show False by simp
  next
    assume "contains (''base64,'' @ EncodeToString body) ''cid:''"
    then have "set ''cid:'' \<subseteq> set (''base64,'' @ EncodeToString body)" by (rule contains_set)
    with EncodeToString_no_colon [of body] show False by simp
  qed
qed

section \<open>The fallbacks of \<open>parseEmail\<close>\<close>

lemma TrimSpace_Nil [simp]: "TrimSpace [] = []"
  by (simp add: TrimSpace_def)

lemma parseEmail_malformed_type:
  "msgRead data = Some e \<Longrightarrow> ctErr (Header e) \<Longrightarrow>
     snd (parseEmail ord msgRead data) = (TrimSpace (fst (Body e)), [])"
  by (cases e) (simp add: parseEmail_def)

lemma parseEmail_no_parts:
  "msgRead data = Some e \<Longrightarrow> \<not> ctErr (Header e) \<Longrightarrow>
     hasPrefix (ctMediaType (Header e)) ''multipart/'' \<Longrightarrow> Parts e = None \<or> Parts e = Some [] \<Longrightarrow>
     snd (parseEmail ord msgRead data) = ([], [])"
  by (cases e) (auto simp: parseEmail_def)

text \<open>
  Claim C6, as the code has it. Only an error of \<open>message.Read\<close> makes \<open>parseEmail\<close> fall back
  to the raw input: it then returns the subject \<open>No Subject\<close>, the whole raw input as the text
  and an empty html, and \<open>Data\<close> goes on to forward that message instead of returning an
  error. When \<open>message.Read\<close> succeeds the raw input is not used: the subject is the Subject
  header, or \<open>No Subject\<close> when that is absent or empty; an entity whose Content-Type cannot be
  parsed gives its own body, trimmed, as the text and an empty html; a multipart entity that
  has no multipart reader, or whose reader fails or ends before the first part, gives an
  empty text and an empty html.
\<close>

theorem parseEmail_fallback:
  "(msgRead data = None \<longrightarrow> parseEmail ord msgRead data = (''No Subject'', data, []))
   \<and> (msgRead data = Some e \<longrightarrow>
        fst (parseEmail ord msgRead data)
          = (if hSubject (Header e) \<noteq> [] then hSubject (Header e) else ''No Subject''))
   \<and> (msgRead data = Some e \<longrightarrow> ctErr (Header e) \<longrightarrow>
        snd (parseEmail ord msgRead data) = (TrimSpace (fst (Body e)), []))
   \<and> (msgRead data = Some e \<longrightarrow> \<not> ctErr (Header e) \<longrightarrow>
        hasPrefix (ctMediaType (Header e)) ''multipart/'' \<longrightarrow>
        (Parts e = None \<or> Parts e = Some []) \<longrightarrow>
        snd (parseEmail ord msgRead data) = ([], []))
   \<and> (msgRead data = None \<longrightarrow> readAllLimited r MaxEmailSize = (data, None) \<longrightarrow>
        rcptTo s = t # ts \<longrightarrow>
        Data ord msgRead api s r =
          (api \<lparr>To = t, Subject = ''No Subject'', Text = data, HTML = [],
                 AppName = determineAppName s\<rparr>,
           [\<lparr>To = t, Subject = ''No Subject'', Text = data, HTML = [],
              AppName = determineAppName s\<rparr>]))"
proof (intro conjI impI)
  assume "msgRead data = None"
  then show "parseEmail ord msgRead data = (''No Subject'', data, [])"
    by (rule parseEmail_error)
next
  assume "msgRead data = Some e"
  then show "fst (parseEmail ord msgRead data)
          = (if hSubject (Header e) \<noteq> [] then hSubject (Header e) else ''No Subject'')"
    by (rule parseEmail_subject)
next
  assume "msgRead data = Some e" "ctErr (Header e)"
  then show "snd (parseEmail ord msgRead data) = (TrimSpace (fst (Body e)), [])"
    by (rule parseEmail_malformed_type)
next
  assume "msgRead data = Some e" "\<not> ctErr (Header e)"
    "hasPrefix (ctMediaType (Header e)) ''multipart/''" "Parts e = None \<or> Parts e = Some []"
  then show "snd (parseEmail ord msgRead data) = ([], [])"
    by (rule parseEmail_no_parts)
next
  assume n: "msgRead data = None" and r: "readAllLimited r MaxEmailSize = (data, None)"
    and t: "rcptTo s = t # ts"
  have p: "parseEmail ord msgRead data = (''No Subject'', data, [])"
    using n by (rule parseEmail_error)
  from r t p show "Data ord msgRead api s r =
          (api \<lparr>To = t, Subject = ''No Subject'', Text = data, HTML = [],
                 AppName = determineAppName s\<rparr>,
           [\<lparr>To = t, Subject = ''No Subject'', Text = data, HTML = [],
              AppName = determineAppName s\<rparr>])"
    by (rule Data_forward)
qed

lemma broken_multipart:
  "parseEmail id (constParse (withSubject ''S'' (multipart ''multipart/mixed'' []))) data
     = (''S'', [], [])"
  by (simp add: parseEmail_def constParse_def withSubject_def multipart_def mixed_multipart)

lemma malformed_type:
  "parseEmail id (constParse (malformed ''text;;'' '' body '')) data = (''No Subject'', ''body'', [])"
  by (simp add: parseEmail_def constParse_def malformed_def TrimSpace_def spaces_def
      spaceLen_def hasPrefix_def)

text \<open>
  Claim C6 as it is stated fails on a message that \<open>message.Read\<close> accepts and whose MIME
  structure then fails to parse. For a multipart/mixed message with the subject \<open>S\<close> whose
  reader fails at the first part, \<open>parseEmail\<close> returns the subject \<open>S\<close> and an empty text,
  not \<open>No Subject\<close> and the raw input. For a message whose Content-Type cannot be parsed it
  returns the body of the entity, trimmed, not the raw input.
\<close>

theorem parse_failure_after_read:
  "parseEmail id (constParse (withSubject ''S'' (multipart ''multipart/mixed'' [])))
       ''Subject: S...''
     = (''S'', [], [])
   \<and> parseEmail id (constParse (malformed ''text;;'' '' body '')) ''Content-Type: text;;...''
     = (''No Subject'', ''body'', [])"
  using broken_multipart malformed_type by blast

theorem parseEmail_fallback_witness:
  "noParse ''garbage'' = None
   \<and> parseEmail id noParse ''garbage'' = (''No Subject'', ''garbage'', [])
   \<and> fst (parseEmail id plainParse ''Hello'') = ''No Subject''
   \<and> fst (parseEmail id (constParse (withSubject ''S'' (leaf ''text/plain'' ''Hello''))) ''raw'')
       = ''S''
   \<and> ctErr (Header (malformed ''text;;'' '' body ''))
   \<and> snd (parseEmail id (constParse (malformed ''text;;'' '' body '')) ''raw'') = (''body'', [])
   \<and> Parts (multipart ''multipart/mixed'' []) = Some []
   \<and> snd (parseEmail id (constParse (multipart ''multipart/mixed'' [])) ''raw'') = ([], [])
   \<and> readAllLimited (Reader ''garbage'' None) MaxEmailSize = (''garbage'', None)
   \<and> rcptTo (Rcpt NewSession ''a@b'') = [''a@b'']
   \<and> Data id noParse apiOk (Rcpt NewSession ''a@b'') (Reader ''garbage'' None)
       = (None, [\<lparr>To = ''a@b'', Subject = ''No Subject'', Text = ''garbage'', HTML = [],
                  AppName = ''app''\<rparr>])"
proof -
  let ?mal = "malformed ''text;;'' '' body ''"
  let ?mp = "multipart ''multipart/mixed'' []"
  let ?sub = "withSubject ''S'' (leaf ''text/plain'' ''Hello'')"
  have n: "noParse ''garbage'' = None" by (simp add: noParse_def)
  have p: "plainParse ''Hello'' = Some (leaf ''text/plain'' ''Hello'')" by (simp add: plainParse_def)
  have r: "readAllLimited (Reader ''garbage'' None) MaxEmailSize = (''garbage'', None)"
    by (rule readAll_short) (simp add: MaxEmailSize_def)
  have t: "rcptTo (Rcpt NewSession ''a@b'') = [''a@b'']" by (simp add: Rcpt_def NewSession_def)
  have d: "determineAppName (Rcpt NewSession ''a@b'') = ''app''"
    by (simp add: determineAppName_def Rcpt_def NewSession_def)
  have ce: "ctErr (Header ?mal)" by (simp add: malformed_def)
  have tr: "TrimSpace (fst (Body ?mal)) = ''body''"
    by (simp add: malformed_def TrimSpace_def spaces_def spaceLen_def hasPrefix_def)
  have ps: "Parts ?mp = Some []" by simp
  note th = parseEmail_fallback
  from th [where msgRead = noParse and data = "''garbage''" and ord = id] n
  have 1: "parseEmail id noParse ''garbage'' = (''No Subject'', ''garbage'', [])" by blast
  from th [where msgRead = plainParse and data = "''Hello''"
      and e = "leaf ''text/plain'' ''Hello''" and ord = id] p
  have 2: "fst (parseEmail id plainParse ''Hello'') = ''No Subject''" by (simp add: leaf_def)
  from th [where msgRead = "constParse ?sub" and data = "''raw''" and e = ?sub and ord = id]
  have 3: "fst (parseEmail id (constParse ?sub) ''raw'') = ''S''"
    by (simp add: constParse_def withSubject_def)
  from th [where msgRead = "constParse ?mal" and data = "''raw''" and e = ?mal and ord = id] ce
  have 4: "snd (parseEmail id (constParse ?mal) ''raw'') = (''body'', [])"
    unfolding tr by (simp add: constParse_def)
  from th [where msgRead = "constParse ?mp" and data = "''raw''" and e = ?mp and ord = id] ps
  have 5: "snd (parseEmail id (constParse ?mp) ''raw'') = ([], [])"
    by (simp add: constParse_def mixed_multipart)
  from th [where msgRead = noParse and data = "''garbage''" and ord = id
      and r = "Reader ''garbage'' None" and s = "Rcpt NewSession ''a@b''"
      and t = "''a@b''" and ts = "[]" and api = apiOk] n r t
  have 6: "Data id noParse apiOk (Rcpt NewSession ''a@b'') (Reader ''garbage'' None)
       = (None, [\<lparr>To = ''a@b'', Subject = ''No Subject'', Text = ''garbage'', HTML = [],
                  AppName = ''app''\<rparr>])"
    by (simp add: apiOk_def d)
  from n r t ce ps 1 2 3 4 5 6 show ?thesis by blast
qed

section \<open>First text, last html\<close>

lemma two_plain_parts:
  "hasPrefix mt ''multipart/'' \<Longrightarrow>
     extractBodyParts ord (multipart mt [leaf ''text/plain'' b1, leaf ''text/plain'' b2])
       = (if b1 \<noteq> [] then b1 else b2, [])"
  by (simp add: extract_multipart)

text \<open>
  Claim C4, as the code has it. For a multipart entity whose parts all fall under the
  default rule, the text that \<open>extractBodyParts\<close> returns is the first non-empty text among
  the results of the recursive calls, in document order, and the html is the last non-empty
  html among them; nothing is concatenated. With two text/plain parts the text is the
  content of the first part when that is not empty and the content of the second part
  otherwise, and the text that \<open>parseEmail\<close> returns is that text without its leading and
  trailing white space.
\<close>

theorem first_text_last_html:
  "(\<not> ctErr hdr \<longrightarrow> hasPrefix (ctMediaType hdr) ''multipart/'' \<longrightarrow>
      (\<forall>p\<in>set ps. \<not> isInlineImage p \<and> recurseInto p) \<longrightarrow>
      extractBodyParts ord (Entity hdr b (Some ps))
        = (firstNonEmpty (map (\<lambda>p. fst (extractBodyParts ord p)) ps),
           lastNonEmpty (map (\<lambda>p. snd (extractBodyParts ord p)) ps)))
   \<and> (hasPrefix mt ''multipart/'' \<longrightarrow>
        extractBodyParts ord (multipart mt [leaf ''text/plain'' b1, leaf ''text/plain'' b2])
          = (if b1 \<noteq> [] then b1 else b2, [])
        \<and> (msgRead data = Some (multipart mt [leaf ''text/plain'' b1, leaf ''text/plain'' b2]) \<longrightarrow>
             snd (parseEmail ord msgRead data) = (TrimSpace (if b1 \<noteq> [] then b1 else b2), [])))"
proof (intro conjI impI)
  assume "\<not> ctErr hdr" "hasPrefix (ctMediaType hdr) ''multipart/''"
    and "\<forall>p\<in>set ps. \<not> isInlineImage p \<and> recurseInto p"
  then show "extractBodyParts ord (Entity hdr b (Some ps))
        = (firstNonEmpty (map (\<lambda>p. fst (extractBodyParts ord p)) ps),
           lastNonEmpty (map (\<lambda>p. snd (extractBodyParts ord p)) ps))"
    by (simp add: partsLoop_default)
next
  assume a: "hasPrefix mt ''multipart/''"
  then show x: "extractBodyParts ord (multipart mt [leaf ''text/plain'' b1, leaf ''text/plain'' b2])
          = (if b1 \<noteq> [] then b1 else b2, [])"
    by (rule two_plain_parts)
  assume "msgRead data = Some (multipart mt [leaf ''text/plain'' b1, leaf ''text/plain'' b2])"
  with x show "snd (parseEmail ord msgRead data) = (TrimSpace (if b1 \<noteq> [] then b1 else b2), [])"
    by (simp add: parseEmail_def)
qed

lemma TrimSpace_one: "TrimSpace ''one '' = ''one''"
  by (simp add: TrimSpace_def spaces_def spaceLen_def hasPrefix_def)

text \<open>
  Claim C4 as it is stated fails in its last sentence. When the first of two text/plain
  parts is empty the text is the content of the second part; when the first part is
  \<open>one\<close> followed by a space the normalized text is \<open>one\<close>, without the space.
\<close>

theorem first_part_not_returned:
  "extractBodyParts id (multipart ''multipart/mixed''
       [leaf ''text/plain'' [], leaf ''text/plain'' ''two''])
     = (''two'', [])
   \<and> parseEmail id
       (constParse (multipart ''multipart/mixed''
          [leaf ''text/plain'' ''one '', leaf ''text/plain'' ''two''])) ''raw''
     = (''No Subject'', ''one'', [])"
proof -
  have 1: "extractBodyParts id (multipart ''multipart/mixed''
       [leaf ''text/plain'' [], leaf ''text/plain'' ''two'']) = (''two'', [])"
    using two_plain_parts [OF mixed_multipart, of id "[]" "''two''"] by simp
  have "extractBodyParts id (multipart ''multipart/mixed''
       [leaf ''text/plain'' ''one '', leaf ''text/plain'' ''two'']) = (''one '', [])"
    using two_plain_parts [OF mixed_multipart, of id "''one ''" "''two''"] by simp
  then have 2: "parseEmail id
       (constParse (multipart ''multipart/mixed''
          [leaf ''text/plain'' ''one '', leaf ''text/plain'' ''two''])) ''raw''
     = (''No Subject'', ''one'', [])"
    by (simp add: parseEmail_def constParse_def TrimSpace_one multipart_def)
  from 1 2 show ?thesis by blast
qed

theorem first_text_last_html_witness:
  "hasPrefix ''multipart/mixed'' ''multipart/''
   \<and> \<not> isInlineImage (leaf ''text/plain'' ''first'') \<and> recurseInto (leaf ''text/plain'' ''first'')
   \<and> extractBodyParts id (multipart ''multipart/mixed''
         [leaf ''text/plain'' [], leaf ''text/plain'' ''first'', leaf ''text/html'' ''<a>'',
          leaf ''text/plain'' ''second'', leaf ''text/html'' ''<b>''])
       = (''first'', ''<b>'')
   \<and> extractBodyParts id (multipart ''multipart/mixed''
         [leaf ''text/plain'' ''one '', leaf ''text/plain'' ''two''])
       = (''one '', [])
   \<and> snd (parseEmail id
         (constParse (multipart ''multipart/mixed''
            [leaf ''text/plain'' ''one '', leaf ''text/plain'' ''two''])) ''raw'')
       = (''one'', [])
   \<and> extractBodyParts id (multipart ''multipart/mixed''
         [leaf ''text/plain'' [], leaf ''text/plain'' ''two''])
       = (''two'', [])"
proof -
  let ?hdr = "\<lparr>ctMediaType = ''multipart/mixed'', ctParams = [], ctErr = False, hSubject = [],
             hContentId = [], hContentDisposition = []\<rparr>"
  let ?ps = "[leaf ''text/plain'' [], leaf ''text/plain'' ''first'', leaf ''text/html'' ''<a>'',
          leaf ''text/plain'' ''second'', leaf ''text/html'' ''<b>'']"
  let ?two = "multipart ''multipart/mixed'' [leaf ''text/plain'' ''one '', leaf ''text/plain'' ''two'']"
  note th = first_text_last_html
  have d: "\<forall>p\<in>set ?ps. \<not> isInlineImage p \<and> recurseInto p" by simp
  from th [where hdr = ?hdr and ps = ?ps and ord = id and b = "([], False)"] d mixed_multipart
  have 1: "extractBodyParts id (multipart ''multipart/mixed'' ?ps) = (''first'', ''<b>'')"
    unfolding multipart_def by simp
  from th [where mt = "''multipart/mixed''" and ?b1.0 = "''one ''" and ?b2.0 = "''two''" and ord = id
      and msgRead = "constParse ?two" and data = "''raw''"] mixed_multipart
  have 2: "extractBodyParts id ?two = (''one '', [])"
    and 3: "snd (parseEmail id (constParse ?two) ''raw'') = (TrimSpace ''one '', [])"
    by (simp_all add: constParse_def)
  from th [where mt = "''multipart/mixed''" and ?b1.0 = "[]" and ?b2.0 = "''two''" and ord = id]
    mixed_multipart
  have 4: "extractBodyParts id (multipart ''multipart/mixed''
         [leaf ''text/plain'' [], leaf ''text/plain'' ''two'']) = (''two'', [])"
    by simp
  from 1 2 3 4 mixed_multipart show ?thesis unfolding TrimSpace_one by simp
qed

section \<open>No promotion inside the traversal\<close>

lemma partsLoop_text:
  "fst (partsLoop ord ps (t, h, m))
     = (if t \<noteq> [] then t
        else firstNonEmpty (map (\<lambda>p. fst (extractBodyParts ord p))
               (filter (\<lambda>p. \<not> isInlineImage p \<and> recurseInto p) ps)))"
proof (induction ps arbitrary: t h m)
  case Nil
  show ?case by simp
next
  case (Cons p ps)
  show ?case
  proof (cases "isInlineImage p")
    case True
    show ?thesis
    proof (cases "snd (Body p)")
      case True
      with \<open>isInlineImage p\<close> show ?thesis
        by (simp add: partsLoop_inline_unreadable Cons.IH)
    next
      case False
      with \<open>isInlineImage p\<close> show ?thesis
        by (simp add: partsLoop_inline Cons.IH)
    qed
  next
    case False
    note ni = this
    show ?thesis
    proof (cases "recurseInto p")
      case True
      obtain pt ph where e: "extractBodyParts ord p = (pt, ph)"
        by (cases "extractBodyParts ord p")
      show ?thesis
        unfolding partsLoop_recurse [OF ni True e] Cons.IH using ni True by (simp add: e)
    next
      case False
      with ni show ?thesis by (simp add: partsLoop_skip Cons.IH)
    qed
  qed
qed

lemma multipart_text:
  assumes "\<not> ctErr (Header e)" "hasPrefix (ctMediaType (Header e)) ''multipart/''"
    "Parts e = Some ps"
  shows "fst (extractBodyParts ord e)
           = firstNonEmpty (map (\<lambda>p. fst (extractBodyParts ord p))
               (filter (\<lambda>p. \<not> isInlineImage p \<and> recurseInto p) ps))"
proof -
  obtain t h m where l: "partsLoop ord ps ([], [], []) = (t, h, m)"
    using prod_cases3 by blast
  from extract_multipart_general [OF assms l] have "fst (extractBodyParts ord e) = t" by simp
  also have "t = fst (partsLoop ord ps ([], [], []))" using l by simp
  finally show ?thesis by (simp add: partsLoop_text)
qed

lemma nested_html_then_plain:
  assumes "hasPrefix mt ''multipart/''" "hasPrefix mt' ''multipart/''"
  shows "extractBodyParts ord
           (multipart mt [multipart mt' [leaf ''text/html'' b], leaf ''text/plain'' t])
           = (t, b)"
proof -
  have n: "extractBodyParts ord (multipart mt' [leaf ''text/html'' b]) = ([], b)"
    by (simp add: extract_multipart [OF assms(2)])
  show ?thesis
    unfolding extract_multipart [OF assms(1)]
    using partsLoop_recurse [OF multipart_default n, of "[leaf ''text/plain'' t]" "[]" "[]" "[]"]
    by simp
qed

text \<open>
  Claim C7. The promotion of the html to the text is done by \<open>parseEmail\<close>, after
  \<open>extractBodyParts\<close> has returned: when the extracted text is empty and the extracted html
  is not, the text and the html that \<open>parseEmail\<close> returns are equal. A message that is a
  single text/html part is extracted as an empty text and its body as html, and \<open>parseEmail\<close>
  returns that body, trimmed, as both. Inside \<open>extractBodyParts\<close> there is no promotion, at
  any depth: the text that a call on a multipart entity returns is the first non-empty text
  that the recursive calls on its parts return, and empty when there is none, whatever html
  the call has accumulated. So a multipart part that holds only html returns an empty text,
  and when a text/plain part follows it the text of the message is the content of that
  text/plain part.
\<close>

theorem text_from_html_promotion:
  "(msgRead data = Some e \<longrightarrow> extractBodyParts ord e = ([], h) \<longrightarrow> h \<noteq> [] \<longrightarrow>
      parseEmail ord msgRead data
        = (if hSubject (Header e) \<noteq> [] then hSubject (Header e) else ''No Subject'',
           TrimSpace h, TrimSpace h))
   \<and> (\<not> ctErr hdr \<longrightarrow> ctMediaType hdr = ''text/html'' \<longrightarrow>
        extractBodyParts ord (Entity hdr (b, False) mr) = ([], b)
        \<and> (msgRead data = Some (Entity hdr (b, False) mr) \<longrightarrow>
             snd (parseEmail ord msgRead data) = (TrimSpace b, TrimSpace b)))
   \<and> (\<not> ctErr (Header e) \<longrightarrow> hasPrefix (ctMediaType (Header e)) ''multipart/'' \<longrightarrow>
        Parts e = Some ps \<longrightarrow>
        fst (extractBodyParts ord e)
          = firstNonEmpty (map (\<lambda>p. fst (extractBodyParts ord p))
              (filter (\<lambda>p. \<not> isInlineImage p \<and> recurseInto p) ps)))
   \<and> (hasPrefix mt ''multipart/'' \<longrightarrow> hasPrefix mt' ''multipart/'' \<longrightarrow>
        extractBodyParts ord (multipart mt' [leaf ''text/html'' b]) = ([], b)
        \<and> extractBodyParts ord
            (multipart mt [multipart mt' [leaf ''text/html'' b], leaf ''text/plain'' t])
          = (t, b))"
proof (intro conjI impI)
  assume "msgRead data = Some e" "extractBodyParts ord e = ([], h)" "h \<noteq> []"
  then show "parseEmail ord msgRead data
        = (if hSubject (Header e) \<noteq> [] then hSubject (Header e) else ''No Subject'',
           TrimSpace h, TrimSpace h)"
    by (rule parseEmail_promote)
next
  assume a: "\<not> ctErr hdr" "ctMediaType hdr = ''text/html''"
  then show x: "extractBodyParts ord (Entity hdr (b, False) mr) = ([], b)"
    by (rule extract_html_leaf)
  assume "msgRead data = Some (Entity hdr (b, False) mr)"
  then show "snd (parseEmail ord msgRead data) = (TrimSpace b, TrimSpace b)"
    using x by (rule parseEmail_html_only)
next
  assume "\<not> ctErr (Header e)" "hasPrefix (ctMediaType (Header e)) ''multipart/''"
    "Parts e = Some ps"
  then show "fst (extractBodyParts ord e)
          = firstNonEmpty (map (\<lambda>p. fst (extractBodyParts ord p))
              (filter (\<lambda>p. \<not> isInlineImage p \<and> recurseInto p) ps))"
    by (rule multipart_text)
next
  assume a: "hasPrefix mt ''multipart/''" "hasPrefix mt' ''multipart/''"
  show "extractBodyParts ord (multipart mt' [leaf ''text/html'' b]) = ([], b)"
    by (simp add: extract_multipart [OF a(2)])
  from a show "extractBodyParts ord
            (multipart mt [multipart mt' [leaf ''text/html'' b], leaf ''text/plain'' t])
          = (t, b)"
    by (rule nested_html_then_plain)
qed

lemma alternative_multipart: "hasPrefix ''multipart/alternative'' ''multipart/''"
  by (simp add: hasPrefix_def)

theorem text_from_html_promotion_witness:
  "htmlParse ''<p>Hi</p> '' = Some (leaf ''text/html'' ''<p>Hi</p> '')
   \<and> extractBodyParts id (leaf ''text/html'' ''<p>Hi</p> '') = ([], ''<p>Hi</p> '')
   \<and> parseEmail id htmlParse ''<p>Hi</p> '' = (''No Subject'', ''<p>Hi</p>'', ''<p>Hi</p>'')
   \<and> hasPrefix ''multipart/alternative'' ''multipart/''
   \<and> hasPrefix ''multipart/mixed'' ''multipart/''
   \<and> Parts (multipart ''multipart/alternative'' [leaf ''text/html'' ''<p>Hi</p>''])
       = Some [leaf ''text/html'' ''<p>Hi</p>'']
   \<and> fst (extractBodyParts id (multipart ''multipart/alternative'' [leaf ''text/html'' ''<p>Hi</p>'']))
       = []
   \<and> extractBodyParts id (multipart ''multipart/alternative'' [leaf ''text/html'' ''<p>Hi</p>''])
       = ([], ''<p>Hi</p>'')
   \<and> extractBodyParts id (multipart ''multipart/mixed''
         [multipart ''multipart/alternative'' [leaf ''text/html'' ''<p>Hi</p>''],
          leaf ''text/plain'' ''Hi'']) = (''Hi'', ''<p>Hi</p>'')"
proof -
  let ?d = "''<p>Hi</p> ''"
  let ?hdr = "\<lparr>ctMediaType = ''text/html'', ctParams = [], ctErr = False, hSubject = [],
             hContentId = [], hContentDisposition = []\<rparr>"
  let ?alt = "multipart ''multipart/alternative'' [leaf ''text/html'' ''<p>Hi</p>'']"
  have l: "leaf ''text/html'' ?d = Entity ?hdr (?d, False) None" by (simp add: leaf_def)
  have p: "htmlParse ?d = Some (leaf ''text/html'' ?d)" by (simp add: htmlParse_def)
  have tr: "TrimSpace ?d = ''<p>Hi</p>''"
    by (simp add: TrimSpace_def spaces_def spaceLen_def hasPrefix_def)
  have ps: "Parts ?alt = Some [leaf ''text/html'' ''<p>Hi</p>'']" by simp
  note th = text_from_html_promotion
  from th [where hdr = ?hdr and b = ?d and mr = None and ord = id]
  have 1: "extractBodyParts id (leaf ''text/html'' ?d) = ([], ?d)" unfolding l by simp
  from th [where msgRead = htmlParse and data = ?d and e = "leaf ''text/html'' ?d"
      and ord = id and h = ?d] p 1
  have 2: "parseEmail id htmlParse ?d = (''No Subject'', ''<p>Hi</p>'', ''<p>Hi</p>'')"
    by (simp add: tr leaf_def)
  from th [where e = ?alt and ps = "[leaf ''text/html'' ''<p>Hi</p>'']" and ord = id]
    alternative_multipart ps
  have 3: "fst (extractBodyParts id ?alt) = []" by simp
  from th [where mt = "''multipart/mixed''" and mt' = "''multipart/alternative''"
      and t = "''Hi''" and b = "''<p>Hi</p>''" and ord = id] mixed_multipart alternative_multipart
  have 4: "extractBodyParts id ?alt = ([], ''<p>Hi</p>'')"
    and 5: "extractBodyParts id (multipart ''multipart/mixed'' [?alt, leaf ''text/plain'' ''Hi''])
        = (''Hi'', ''<p>Hi</p>'')"
    by blast+
  from p 1 2 3 4 5 ps mixed_multipart alternative_multipart show ?thesis by blast
qed

section \<open>Attachments and inline images\<close>

lemma partsLoop_keys:
  "fst ` set m \<subseteq> fst ` set (snd (snd (partsLoop ord ps (t, h, m))))"
proof (induction ps arbitrary: t h m)
  case Nil
  show ?case by simp
next
  case (Cons p ps)
  show ?case
  proof (cases "isInlineImage p")
    case True
    show ?thesis
    proof (cases "snd (Body p)")
      case True
      with \<open>isInlineImage p\<close> show ?thesis
        by (simp add: partsLoop_inline_unreadable Cons.IH)
    next
      case False
      let ?m = "AList.update (trim (hContentId (Header p)) ''<>'')
                  (dataURI (ctMediaType (Header p)) (fst (Body p))) m"
      have "fst ` set m \<subseteq> fst ` set ?m" by (simp add: dom_update subset_insertI)
      also have "\<dots> \<subseteq> fst ` set (snd (snd (partsLoop ord ps (t, h, ?m))))" by (rule Cons.IH)
      finally show ?thesis
        using \<open>isInlineImage p\<close> False by (simp add: partsLoop_inline)
    qed
  next
    case False
    note ni = this
    show ?thesis
    proof (cases "recurseInto p")
      case True
      obtain pt ph where e: "extractBodyParts ord p = (pt, ph)"
        by (cases "extractBodyParts ord p")
      show ?thesis
        unfolding partsLoop_recurse [OF ni True e] by (rule Cons.IH)
    next
      case False
      with ni show ?thesis by (simp add: partsLoop_skip Cons.IH)
    qed
  qed
qed

lemma partsLoop_image_entered:
  assumes "isInlineImage p" "\<not> snd (Body p)"
  shows "partsLoop ord (xs @ p # ys) st
           = partsLoop ord ys
               (case partsLoop ord xs st of
                  (t, h, m) \<Rightarrow>
                    (t, h, AList.update (trim (hContentId (Header p)) ''<>'')
                             (dataURI (ctMediaType (Header p)) (fst (Body p))) m))"
    and "trim (hContentId (Header p)) ''<>''
           \<in> fst ` set (snd (snd (partsLoop ord (xs @ p # ys) st)))"
proof -
  obtain t h m where x: "partsLoop ord xs st = (t, h, m)" using prod_cases3 by blast
  let ?k = "trim (hContentId (Header p)) ''<>''"
  let ?m = "AList.update ?k (dataURI (ctMediaType (Header p)) (fst (Body p))) m"
  show 1: "partsLoop ord (xs @ p # ys) st
           = partsLoop ord ys
               (case partsLoop ord xs st of
                  (t, h, m) \<Rightarrow>
                    (t, h, AList.update (trim (hContentId (Header p)) ''<>'')
                             (dataURI (ctMediaType (Header p)) (fst (Body p))) m))"
    by (simp add: partsLoop_append x partsLoop_inline [OF assms])
  have "?k \<in> fst ` set ?m" by (simp add: dom_update)
  with partsLoop_keys [of ?m ord ys t h]
  show "?k \<in> fst ` set (snd (snd (partsLoop ord (xs @ p # ys) st)))"
    unfolding 1 x by auto
qed

lemma partsLoop_image_unreadable:
  assumes "isInlineImage p" "snd (Body p)"
  shows "partsLoop ord (xs @ p # ys) st = partsLoop ord (xs @ ys) st"
proof -
  obtain t h m where x: "partsLoop ord xs st = (t, h, m)" using prod_cases3 by blast
  show ?thesis by (simp add: partsLoop_append x partsLoop_inline_unreadable [OF assms])
qed

text \<open>
  Claim C1, as the code has it. The test for an inline image (line 270) comes before the
  test of the Content-Disposition (line 277). A part whose Content-Disposition starts with
  \<open>attachment\<close> and that is not an inline image (its media type does not start with \<open>image/\<close>,
  or its Content-Id is empty) is skipped: the text, the html and the inline image map are
  what they are without that part. A part whose media type starts with \<open>image/\<close> and whose
  Content-Id is not empty is handled without a look at its Content-Disposition: when its
  body reads without error, its data-URI is entered into the inline image map under its
  content-id, and the content-id is a key of the map at the end of the loop; when the read
  of its body fails, the text, the html and the map are what they are without that part.
\<close>

theorem attachment_skipped:
  "(hasPrefix (hContentDisposition (Header p)) ''attachment'' \<longrightarrow> \<not> isInlineImage p \<longrightarrow>
      partsLoop ord (xs @ p # ys) st = partsLoop ord (xs @ ys) st
      \<and> extractBodyParts ord (Entity hdr b (Some (xs @ p # ys)))
          = extractBodyParts ord (Entity hdr b (Some (xs @ ys))))
   \<and> (isInlineImage p \<longrightarrow> \<not> snd (Body p) \<longrightarrow>
        partsLoop ord (xs @ p # ys) st
          = partsLoop ord ys
              (case partsLoop ord xs st of
                 (t, h, m) \<Rightarrow>
                   (t, h, AList.update (trim (hContentId (Header p)) ''<>'')
                            (dataURI (ctMediaType (Header p)) (fst (Body p))) m))
        \<and> trim (hContentId (Header p)) ''<>''
            \<in> fst ` set (snd (snd (partsLoop ord (xs @ p # ys) st))))
   \<and> (isInlineImage p \<longrightarrow> snd (Body p) \<longrightarrow>
        partsLoop ord (xs @ p # ys) st = partsLoop ord (xs @ ys) st)"
proof (intro conjI impI)
  assume a: "hasPrefix (hContentDisposition (Header p)) ''attachment''" "\<not> isInlineImage p"
  then have skip: "\<And>s. partsLoop ord (p # ys) s = partsLoop ord ys s"
    using attachment_not_recursed partsLoop_skip by blast
  show "partsLoop ord (xs @ p # ys) st = partsLoop ord (xs @ ys) st"
    by (simp add: partsLoop_append skip)
  have "partsLoop ord (xs @ p # ys) ([], [], []) = partsLoop ord (xs @ ys) ([], [], [])"
    by (simp add: partsLoop_append skip)
  then show "extractBodyParts ord (Entity hdr b (Some (xs @ p # ys)))
          = extractBodyParts ord (Entity hdr b (Some (xs @ ys)))"
    by simp
next
  assume a: "isInlineImage p" "\<not> snd (Body p)"
  then show "partsLoop ord (xs @ p # ys) st
          = partsLoop ord ys
              (case partsLoop ord xs st of
                 (t, h, m) \<Rightarrow>
                   (t, h, AList.update (trim (hContentId (Header p)) ''<>'')
                            (dataURI (ctMediaType (Header p)) (fst (Body p))) m))"
    by (rule partsLoop_image_entered)
  from a show "trim (hContentId (Header p)) ''<>''
            \<in> fst ` set (snd (snd (partsLoop ord (xs @ p # ys) st)))"
    by (rule partsLoop_image_entered)
next
  assume "isInlineImage p" "snd (Body p)"
  then show "partsLoop ord (xs @ p # ys) st = partsLoop ord (xs @ ys) st"
    by (rule partsLoop_image_unreadable)
qed

theorem attachment_skipped_witness:
  "hasPrefix (hContentDisposition (Header (mimePart ''application/pdf'' [] ''attachment; filename=a.pdf'' ''PDF''))) ''attachment''
   \<and> \<not> isInlineImage (mimePart ''application/pdf'' [] ''attachment; filename=a.pdf'' ''PDF'')
   \<and> extractBodyParts id (multipart ''multipart/mixed''
         [leaf ''text/plain'' ''Hi'', mimePart ''application/pdf'' [] ''attachment; filename=a.pdf'' ''PDF'',
          leaf ''text/html'' ''<b>Hi</b>''])
       = (''Hi'', ''<b>Hi</b>'')
   \<and> isInlineImage (mimePart ''image/png'' ''<logo>'' ''attachment'' ''PNG'')
   \<and> partsLoop id [leaf ''text/html'' ''x'', mimePart ''image/png'' ''<logo>'' ''attachment'' ''PNG'']
         ([], [], [])
       = ([], ''x'', [(''logo'', ''data:image/png;base64,UE5H'')])
   \<and> ''logo'' \<in> fst ` set (snd (snd (partsLoop id
         [leaf ''text/html'' ''x'', mimePart ''image/png'' ''<logo>'' ''attachment'' ''PNG'']
         ([], [], []))))
   \<and> isInlineImage (unreadable (mimePart ''image/png'' ''<logo>'' ''inline'' ''PNG''))
   \<and> snd (Body (unreadable (mimePart ''image/png'' ''<logo>'' ''inline'' ''PNG'')))
   \<and> partsLoop id
         [leaf ''text/html'' ''x'', unreadable (mimePart ''image/png'' ''<logo>'' ''inline'' ''PNG'')]
         ([], [], [])
       = ([], ''x'', [])"
proof -
  let ?pdf = "mimePart ''application/pdf'' [] ''attachment; filename=a.pdf'' ''PDF''"
  let ?png = "mimePart ''image/png'' ''<logo>'' ''attachment'' ''PNG''"
  let ?bad = "unreadable (mimePart ''image/png'' ''<logo>'' ''inline'' ''PNG'')"
  let ?hdr = "\<lparr>ctMediaType = ''multipart/mixed'', ctParams = [], ctErr = False, hSubject = [],
             hContentId = [], hContentDisposition = []\<rparr>"
  note th = attachment_skipped
  from th [where p = ?pdf and xs = "[leaf ''text/plain'' ''Hi'']" and ys = "[leaf ''text/html'' ''<b>Hi</b>'']"
      and ord = id and hdr = ?hdr and b = "([], False)"] pdf_attachment
  have "extractBodyParts id (multipart ''multipart/mixed'' [leaf ''text/plain'' ''Hi'', ?pdf, leaf ''text/html'' ''<b>Hi</b>''])
      = extractBodyParts id (multipart ''multipart/mixed'' [leaf ''text/plain'' ''Hi'', leaf ''text/html'' ''<b>Hi</b>''])"
    unfolding multipart_def by simp
  also have "\<dots> = (''Hi'', ''<b>Hi</b>'')"
    by (simp add: extract_multipart [OF mixed_multipart])
  finally have 1: "extractBodyParts id (multipart ''multipart/mixed'' [leaf ''text/plain'' ''Hi'', ?pdf, leaf ''text/html'' ''<b>Hi</b>''])
      = (''Hi'', ''<b>Hi</b>'')" .
  have i: "isInlineImage ?png" by (rule png_inline)
  have r: "\<not> snd (Body ?png)" by (simp add: mimePart_def)
  have k: "trim (hContentId (Header ?png)) ''<>'' = ''logo''" by (simp add: mimePart_def trim_def)
  have u: "dataURI (ctMediaType (Header ?png)) (fst (Body ?png)) = ''data:image/png;base64,UE5H''"
    by (simp add: mimePart_def dataURI_def sextet_def encodeStd_def)
  from th [where p = ?png and xs = "[leaf ''text/html'' ''x'']" and ys = "[]" and ord = id
      and st = "([], [], [])"] i r
  have 2: "partsLoop id [leaf ''text/html'' ''x'', ?png] ([], [], [])
       = ([], ''x'', [(''logo'', ''data:image/png;base64,UE5H'')])"
    and 3: "''logo'' \<in> fst ` set (snd (snd (partsLoop id [leaf ''text/html'' ''x'', ?png] ([], [], []))))"
    unfolding k u by simp_all
  have bi: "isInlineImage ?bad" by (simp add: unreadable_def mimePart_def isInlineImage_def hasPrefix_def)
  have bb: "snd (Body ?bad)" by (simp add: unreadable_def)
  from th [where p = ?bad and xs = "[leaf ''text/html'' ''x'']" and ys = "[]" and ord = id
      and st = "([], [], [])"] bi bb
  have 4: "partsLoop id [leaf ''text/html'' ''x'', ?bad] ([], [], []) = ([], ''x'', [])"
    by simp
  from pdf_attachment 1 i 2 3 bi bb 4 show ?thesis by blast
qed

section \<open>The inline image map of a call\<close>

lemma set_update_entries: "set (AList.update k v m) \<subseteq> insert (k, v) (set m)"
  by (induction m) auto

lemma partsLoop_distinct:
  "distinct (map fst m) \<Longrightarrow> distinct (map fst (snd (snd (partsLoop ord ps (t, h, m)))))"
proof (induction ps arbitrary: t h m)
  case Nil
  then show ?case by simp
next
  case (Cons p ps)
  show ?case
  proof (cases "isInlineImage p")
    case True
    show ?thesis
    proof (cases "snd (Body p)")
      case True
      with \<open>isInlineImage p\<close> Cons show ?thesis
        by (simp add: partsLoop_inline_unreadable)
    next
      case False
      with \<open>isInlineImage p\<close> Cons show ?thesis
        by (simp add: partsLoop_inline distinct_update)
    qed
  next
    case False
    note ni = this
    show ?thesis
    proof (cases "recurseInto p")
      case True
      obtain pt ph where e: "extractBodyParts ord p = (pt, ph)"
        by (cases "extractBodyParts ord p")
      show ?thesis
        unfolding partsLoop_recurse [OF ni True e] using Cons.prems by (rule Cons.IH)
    next
      case False
      with ni Cons show ?thesis by (simp add: partsLoop_skip)
    qed
  qed
qed

lemma partsLoop_entries:
  "(k, u) \<in> set (snd (snd (partsLoop ord ps (t, h, m)))) \<Longrightarrow>
     (k, u) \<in> set m
     \<or> (\<exists>p\<in>set ps. isInlineImage p \<and> \<not> snd (Body p)
           \<and> k = trim (hContentId (Header p)) ''<>''
           \<and> u = dataURI (ctMediaType (Header p)) (fst (Body p)))"
proof (induction ps arbitrary: t h m)
  case Nil
  then show ?case by simp
next
  case (Cons p ps)
  show ?case
  proof (cases "isInlineImage p")
    case True
    note i = this
    show ?thesis
    proof (cases "snd (Body p)")
      case True
      with i Cons.prems have "(k, u) \<in> set (snd (snd (partsLoop ord ps (t, h, m))))"
        by (simp add: partsLoop_inline_unreadable)
      from Cons.IH [OF this] show ?thesis by auto
    next
      case False
      let ?k = "trim (hContentId (Header p)) ''<>''"
      let ?u = "dataURI (ctMediaType (Header p)) (fst (Body p))"
      from i False Cons.prems
      have "(k, u) \<in> set (snd (snd (partsLoop ord ps (t, h, AList.update ?k ?u m))))"
        by (simp add: partsLoop_inline)
      from Cons.IH [OF this] set_update_entries [of ?k ?u m] i False
      show ?thesis by auto
    qed
  next
    case False
    note ni = this
    show ?thesis
    proof (cases "recurseInto p")
      case True
      obtain pt ph where e: "extractBodyParts ord p = (pt, ph)"
        by (cases "extractBodyParts ord p")
      from Cons.prems have "(k, u) \<in> set (snd (snd (partsLoop ord ps
          (if pt \<noteq> [] \<and> t = [] then pt else t, if ph \<noteq> [] then ph else h, m))))"
        unfolding partsLoop_recurse [OF ni True e] .
      from Cons.IH [OF this] show ?thesis by auto
    next
      case False
      with ni Cons.prems have "(k, u) \<in> set (snd (snd (partsLoop ord ps (t, h, m))))"
        by (simp add: partsLoop_skip)
      from Cons.IH [OF this] show ?thesis by auto
    qed
  qed
qed

lemma rangeOrder_set: "rangeOrder ord \<Longrightarrow> set (ord m) = set m"
  unfolding rangeOrder_def by (metis mset_eq_setD)

lemma rangeOrder_distinct:
  assumes "rangeOrder ord" "distinct (map fst m)"
  shows "distinct (map fst (ord m))"
proof -
  have "mset (ord m) = mset m" using assms(1) by (simp add: rangeOrder_def)
  then have "mset (map fst (ord m)) = mset (map fst m)" by simp
  then show ?thesis using assms(2) by (metis mset_eq_imp_distinct_iff)
qed


section \<open>Rewriting field by field\<close>

lemma reference_inj [simp]: "(reference a = reference b) = (a = b)"
  by (simp add: reference_def)

lemma reference_nonempty [simp]: "reference k \<noteq> []"
  by (simp add: reference_def)

lemma replaceAll_join:
  "old \<noteq> [] \<Longrightarrow> \<forall>q\<in>fst ` set qfs. q \<notin> set old \<Longrightarrow>
     replaceAll (joinFields f qfs) old new
       = joinFields (replaceAll f old new) (map (\<lambda>(q, g). (q, replaceAll g old new)) qfs)"
proof (induction qfs arbitrary: f)
  case Nil
  show ?case by simp
next
  case (Cons qg rest)
  obtain q g where qg: "qg = (q, g)" by (cases qg)
  from Cons.prems have q: "q \<notin> set old" and r: "\<forall>q\<in>fst ` set rest. q \<notin> set old"
    unfolding qg by simp_all
  show ?case
    unfolding qg using replaceAll_delim [OF Cons.prems(1) q] Cons.IH [OF Cons.prems(1) r]
    by simp
qed

lemma fold_join:
  "\<forall>(k, u)\<in>set es. \<forall>q\<in>fst ` set qfs. q \<notin> set (reference k) \<Longrightarrow>
     foldl (\<lambda>h (contentID, uri). replaceAll h (reference contentID) uri) (joinFields f qfs) es
       = joinFields
           (foldl (\<lambda>h (contentID, uri). replaceAll h (reference contentID) uri) f es)
           (map (\<lambda>(q, g).
                   (q, foldl (\<lambda>h (contentID, uri). replaceAll h (reference contentID) uri) g es))
              qfs)"
proof (induction es arbitrary: f qfs)
  case Nil
  show ?case by (simp add: case_prod_unfold)
next
  case (Cons ku es)
  obtain k u where ku: "ku = (k, u)" by (cases ku)
  let ?qfs = "map (\<lambda>(q, g). (q, replaceAll g (reference k) u)) qfs"
  have fst: "fst ` set ?qfs = fst ` set qfs" by force
  from Cons.prems have d: "\<forall>q\<in>fst ` set qfs. q \<notin> set (reference k)"
    and r: "\<forall>(k, u)\<in>set es. \<forall>q\<in>fst ` set ?qfs. q \<notin> set (reference k)"
    unfolding ku fst by auto
  have step: "replaceAll (joinFields f qfs) (reference k) u
      = joinFields (replaceAll f (reference k) u) ?qfs"
    using d by (intro replaceAll_join) (simp_all add: reference_def)
  show ?case
    unfolding ku using Cons.IH [OF r, of "replaceAll f (reference k) u"]
    by (simp add: step case_prod_unfold comp_def)
qed

lemma fold_absent:
  "\<forall>(k, u)\<in>set es. \<not> contains g (reference k) \<Longrightarrow>
     foldl (\<lambda>h (contentID, uri). replaceAll h (reference contentID) uri) g es = g"
  by (induction es) (auto simp: replaceAll_absent)

lemma fold_reference:
  assumes "distinct (map fst es)" "(k, u) \<in> set es"
    and "\<forall>(k', u')\<in>set es. k' \<noteq> k \<longrightarrow> \<not> contains (reference k) (reference k')"
    and "\<forall>(k', u')\<in>set es. \<not> contains u (reference k')"
  shows "foldl (\<lambda>h (contentID, uri). replaceAll h (reference contentID) uri) (reference k) es = u"
  using assms
proof (induction es)
  case Nil
  then show ?case by simp
next
  case (Cons e es)
  obtain k1 u1 where e: "e = (k1, u1)" by (cases e)
  show ?case
  proof (cases "k1 = k")
    case True
    from Cons.prems(1) have "k \<notin> fst ` set es" unfolding e True by simp
    with Cons.prems(2) have u1: "u1 = u" unfolding e True by force
    have "replaceAll (reference k) (reference k) u = u"
      by (rule replaceAll_self) (simp add: reference_def)
    moreover have "foldl (\<lambda>h (contentID, uri). replaceAll h (reference contentID) uri) u es = u"
      using Cons.prems(4) by (intro fold_absent) (simp add: e)
    ultimately show ?thesis unfolding e True u1 by simp
  next
    case False
    with Cons.prems(3) have "\<not> contains (reference k) (reference k1)" unfolding e by simp
    then have s: "replaceAll (reference k) (reference k1) u1 = reference k"
      by (rule replaceAll_absent)
    from False Cons.prems(2) have m: "(k, u) \<in> set es" unfolding e by simp
    from Cons.prems have "foldl (\<lambda>h (contentID, uri). replaceAll h (reference contentID) uri)
        (reference k) es = u"
      by (intro Cons.IH m) (simp_all add: e)
    then show ?thesis unfolding e by (simp add: s)
  qed
qed

lemma resolveField_reference:
  "distinct (map fst m) \<Longrightarrow> (k, u) \<in> set m \<Longrightarrow> resolveField m (reference k) = u"
  by (simp add: resolveField_def reference_def)

lemma resolveField_other:
  assumes "\<forall>(k, u)\<in>set m. g \<noteq> reference k"
  shows "resolveField m g = g"
proof (cases "hasPrefix g ''cid:''")
  case False
  then show ?thesis by (simp add: resolveField_def)
next
  case True
  then have "g = ''cid:'' @ drop (length ''cid:'') g"
    unfolding hasPrefix_def by (metis append_take_drop_id)
  moreover have "length ''cid:'' = 4" by simp
  ultimately have g: "g = reference (drop 4 g)"
    unfolding reference_def by metis
  have "map_of m (drop 4 g) = None"
  proof (cases "map_of m (drop 4 g)")
    case None
    then show ?thesis .
  next
    case (Some u)
    then have "(drop 4 g, u) \<in> set m" by (rule map_of_SomeD)
    with assms g show ?thesis by fastforce
  qed
  then show ?thesis by (simp add: resolveField_def)
qed

lemma fold_field:
  assumes "distinct (map fst es)" "set es = set m" "distinct (map fst m)"
    and "\<forall>(k, u)\<in>set m. \<forall>(k', u')\<in>set m. \<not> contains u (reference k')"
    and "\<forall>(k, u)\<in>set m. g = reference k \<or> \<not> contains g (reference k)"
  shows "foldl (\<lambda>h (contentID, uri). replaceAll h (reference contentID) uri) g es
           = resolveField m g"
proof (cases "\<exists>(k, u)\<in>set m. g = reference k")
  case True
  then obtain k u where ku: "(k, u) \<in> set m" and g: "g = reference k" by auto
  have o: "\<forall>(k', u')\<in>set es. k' \<noteq> k \<longrightarrow> \<not> contains (reference k) (reference k')"
    using assms(5) unfolding assms(2) g by auto
  have c: "\<forall>(k', u')\<in>set es. \<not> contains u (reference k')"
    using assms(4) ku unfolding assms(2) by auto
  have "foldl (\<lambda>h (contentID, uri). replaceAll h (reference contentID) uri) (reference k) es = u"
    using assms(1) _ o c by (rule fold_reference) (simp add: assms(2) ku)
  then show ?thesis unfolding g resolveField_reference [OF assms(3) ku] .
next
  case False
  then have n: "\<forall>(k, u)\<in>set m. g \<noteq> reference k" by auto
  with assms(5) have "\<forall>(k, u)\<in>set es. \<not> contains g (reference k)"
    unfolding assms(2) by auto
  then show ?thesis unfolding resolveField_other [OF n] by (rule fold_absent)
qed


lemma contains_join:
  "\<forall>q\<in>fst ` set qfs. q \<notin> set sub \<Longrightarrow>
     contains (joinFields f qfs) sub = (contains f sub \<or> (\<exists>g\<in>snd ` set qfs. contains g sub))"
proof (induction qfs arbitrary: f)
  case Nil
  show ?case by simp
next
  case (Cons qg rest)
  obtain q g where qg: "qg = (q, g)" by (cases qg)
  from Cons.prems have q: "q \<notin> set sub" and r: "\<forall>q\<in>fst ` set rest. q \<notin> set sub"
    unfolding qg by simp_all
  show ?case
    unfolding qg using contains_delim [OF q] Cons.IH [OF r] by simp
qed

lemma join_field_split:
  "g \<in> set (f # map snd qfs) \<Longrightarrow> \<exists>a b. joinFields f qfs = a @ g @ b"
proof (induction qfs arbitrary: f)
  case Nil
  then have "joinFields f [] = [] @ g @ []" by simp
  then show ?case by blast
next
  case (Cons qg rest)
  obtain q g' where qg: "qg = (q, g')" by (cases qg)
  show ?case
  proof (cases "g = f")
    case True
    then have "joinFields f (qg # rest) = [] @ g @ (q # joinFields g' rest)"
      unfolding qg by simp
    then show ?thesis by blast
  next
    case False
    with Cons.prems have "g \<in> set (g' # map snd rest)" unfolding qg by simp
    from Cons.IH [OF this] obtain a b where "joinFields g' rest = a @ g @ b" by blast
    then have "joinFields f (qg # rest) = (f @ q # a) @ g @ b" unfolding qg by simp
    then show ?thesis by blast
  qed
qed

lemma contains_join_field:
  "g \<in> set (f # map snd qfs) \<Longrightarrow> contains (joinFields f qfs) g"
  using join_field_split [of g f qfs] contains_middle by metis

lemma resolveFields_delims [simp]: "fst ` set (resolveFields m qfs) = fst ` set qfs"
  unfolding resolveFields_def by force

lemma resolveFields_fields:
  "map snd (resolveFields m qfs) = map (resolveField m) (map snd qfs)"
  unfolding resolveFields_def by (induction qfs) auto

lemma resolved_field_clean:
  assumes "distinct (map fst m)"
    and "\<forall>(k, u)\<in>set m. \<forall>(k', u')\<in>set m. \<not> contains u (reference k')"
    and "\<forall>(k, u)\<in>set m. g = reference k \<or> \<not> contains g (reference k)"
    and "(k, u) \<in> set m"
  shows "\<not> contains (resolveField m g) (reference k)"
proof (cases "\<exists>(k0, u0)\<in>set m. g = reference k0")
  case True
  then obtain k0 u0 where m: "(k0, u0) \<in> set m" and g: "g = reference k0" by auto
  from assms(2,4) m have "\<not> contains u0 (reference k)" by auto
  then show ?thesis unfolding g resolveField_reference [OF assms(1) m] .
next
  case False
  then have n: "\<forall>(k, u)\<in>set m. g \<noteq> reference k" by auto
  with assms(3,4) have "\<not> contains g (reference k)" by auto
  then show ?thesis unfolding resolveField_other [OF n] .
qed

lemma fold_Nil [simp]:
  "foldl (\<lambda>h (contentID, uri). replaceAll h (reference contentID) uri) [] es = []"
  by (induction es) auto

lemma rangeOrder_Nil: "rangeOrder ord \<Longrightarrow> ord [] = []"
  unfolding rangeOrder_def by (metis mset_zero_iff)

lemma rewrite_fold:
  assumes "rangeOrder ord"
  shows "rewrite ord h m
           = foldl (\<lambda>h (contentID, uri). replaceAll h (reference contentID) uri) h (ord m)"
proof -
  have r: "rewrite ord h m
      = (if h \<noteq> [] \<and> m \<noteq> []
         then foldl (\<lambda>h (contentID, uri). replaceAll h (reference contentID) uri) h (ord m)
         else h)"
    by (simp add: rewrite_def reference_def)
  show ?thesis
  proof (cases "h \<noteq> [] \<and> m \<noteq> []")
    case True
    then show ?thesis unfolding r by simp
  next
    case False
    then show ?thesis unfolding r using rangeOrder_Nil [OF assms] by auto
  qed
qed

lemma rewrite_fields:
  assumes "rangeOrder ord" "distinct (map fst m)"
    and "\<forall>(k, u)\<in>set m. \<forall>(k', u')\<in>set m. \<not> contains u (reference k')"
    and "\<forall>(k, u)\<in>set m. \<forall>q\<in>fst ` set qfs. q \<notin> set (reference k)"
    and "\<forall>(k, u)\<in>set m. \<forall>g\<in>set (f # map snd qfs). g = reference k \<or> \<not> contains g (reference k)"
  shows "rewrite ord (joinFields f qfs) m = joinFields (resolveField m f) (resolveFields m qfs)"
proof -
  let ?S = "\<lambda>h (contentID, uri). replaceAll h (reference contentID) uri"
  have s: "set (ord m) = set m" using assms(1) by (rule rangeOrder_set)
  have d: "distinct (map fst (ord m))" using assms(1,2) by (rule rangeOrder_distinct)
  have field: "foldl ?S g (ord m) = resolveField m g" if "g \<in> set (f # map snd qfs)" for g
    using d s assms(2,3) by (rule fold_field) (use assms(5) that in auto)
  have "rewrite ord (joinFields f qfs) m = foldl ?S (joinFields f qfs) (ord m)"
    using assms(1) by (rule rewrite_fold)
  also have "\<dots> = joinFields (foldl ?S f (ord m)) (map (\<lambda>(q, g). (q, foldl ?S g (ord m))) qfs)"
    using assms(4) unfolding s [symmetric] by (intro fold_join) (simp add: reference_def)
  also have "foldl ?S f (ord m) = resolveField m f" by (rule field) simp
  also have "map (\<lambda>(q, g). (q, foldl ?S g (ord m))) qfs = resolveFields m qfs"
  proof -
    have "foldl ?S g (ord m) = resolveField m g" if "(q, g) \<in> set qfs" for q g
      using that by (intro field) force
    then show ?thesis unfolding resolveFields_def by (intro map_cong) auto
  qed
  finally show ?thesis .
qed


lemma call_map:
  assumes "partsLoop ord ps ([], [], []) = (t, h, m)"
  shows "distinct (map fst m)"
    and "(k, u) \<in> set m \<Longrightarrow>
           \<exists>p\<in>set ps. isInlineImage p \<and> \<not> snd (Body p)
             \<and> k = trim (hContentId (Header p)) ''<>''
             \<and> u = dataURI (ctMediaType (Header p)) (fst (Body p))"
proof -
  have m: "m = snd (snd (partsLoop ord ps ([], [], [])))" using assms by simp
  show "distinct (map fst m)"
    unfolding m by (rule partsLoop_distinct) simp
  assume "(k, u) \<in> set m"
  then have "(k, u) \<in> set (snd (snd (partsLoop ord ps ([], [], []))))" unfolding m .
  from partsLoop_entries [OF this]
  show "\<exists>p\<in>set ps. isInlineImage p \<and> \<not> snd (Body p)
             \<and> k = trim (hContentId (Header p)) ''<>''
             \<and> u = dataURI (ctMediaType (Header p)) (fst (Body p))"
    by simp
qed

lemma call_map_clean:
  assumes "partsLoop ord ps ([], [], []) = (t, h, m)"
    and "\<forall>p\<in>set ps. isInlineImage p \<longrightarrow> CHR '':'' \<notin> set (ctMediaType (Header p))"
  shows "\<forall>(k, u)\<in>set m. \<forall>(k', u')\<in>set m. \<not> contains u (reference k')"
proof -
  have "\<not> contains u (reference k')" if "(k, u) \<in> set m" for k u k'
  proof -
    from call_map(2) [OF assms(1) that] obtain p where p: "p \<in> set ps" "isInlineImage p"
      and u: "u = dataURI (ctMediaType (Header p)) (fst (Body p))" by blast
    from assms(2) p have "CHR '':'' \<notin> set (ctMediaType (Header p))" by blast
    then show ?thesis unfolding u reference_def by (rule dataURI_no_reference)
  qed
  then show ?thesis by blast
qed

text \<open>
  Claim C2, as the code has it. Each call of \<open>extractBodyParts\<close> on a multipart entity has an
  inline image map of its own, whose entries are the data-URIs of the readable inline images
  among the parts of that entity, and rewrites the html it has accumulated with that map. For
  every such call: when the media types of the inline images contain no colon, and the
  accumulated html can be cut, at characters that occur in no reference \<open>cid:k\<close> to a
  content-id \<open>k\<close> of the map, into fields each of which, for each \<open>k\<close> of the map, either is
  \<open>cid:k\<close> or does not contain \<open>cid:k\<close>, then the html returned is the same fields with
  every reference \<open>cid:k\<close> replaced by the data-URI of \<open>k\<close>; it contains no \<open>cid:k\<close> for any
  \<open>k\<close> of the map, and it contains the data-URI of every \<open>k\<close> that the html refers to. This
  holds for every order in which the entries of the map are visited.
\<close>

theorem inline_references_rewritten:
  assumes "rangeOrder ord"
    and "\<not> ctErr (Header e)" and "hasPrefix (ctMediaType (Header e)) ''multipart/''"
    and "Parts e = Some ps" and "partsLoop ord ps ([], [], []) = (t, h, m)"
    and "\<forall>p\<in>set ps. isInlineImage p \<longrightarrow> CHR '':'' \<notin> set (ctMediaType (Header p))"
    and "h = joinFields f qfs"
    and "\<forall>(k, u)\<in>set m. \<forall>q\<in>fst ` set qfs. q \<notin> set (reference k)"
    and "\<forall>(k, u)\<in>set m. \<forall>g\<in>set (f # map snd qfs).
           g = reference k \<or> \<not> contains g (reference k)"
  shows "extractBodyParts ord e = (t, joinFields (resolveField m f) (resolveFields m qfs))
         \<and> (\<forall>(k, u)\<in>set m. \<not> contains (snd (extractBodyParts ord e)) (reference k))
         \<and> (\<forall>(k, u)\<in>set m. reference k \<in> set (f # map snd qfs) \<longrightarrow>
               contains (snd (extractBodyParts ord e)) u)
         \<and> (\<forall>(k, u)\<in>set m. \<exists>p\<in>set ps. isInlineImage p \<and> \<not> snd (Body p)
               \<and> k = trim (hContentId (Header p)) ''<>''
               \<and> u = dataURI (ctMediaType (Header p)) (fst (Body p)))"
proof -
  let ?r = "joinFields (resolveField m f) (resolveFields m qfs)"
  have d: "distinct (map fst m)" using assms(5) by (rule call_map)
  have c: "\<forall>(k, u)\<in>set m. \<forall>(k', u')\<in>set m. \<not> contains u (reference k')"
    using assms(5,6) by (rule call_map_clean)
  have "extractBodyParts ord e = (t, rewrite ord h m)"
    using assms(2,3,4,5) by (rule extract_multipart_general)
  also have "rewrite ord h m = ?r"
    unfolding assms(7) using assms(1) d c assms(8,9) by (rule rewrite_fields)
  finally have 1: "extractBodyParts ord e = (t, ?r)" .
  have 2: "\<not> contains ?r (reference k)" if ku: "(k, u) \<in> set m" for k u
  proof -
    have q: "\<forall>q\<in>fst ` set (resolveFields m qfs). q \<notin> set (reference k)"
      using assms(8) ku by auto
    have clean: "\<not> contains (resolveField m g) (reference k)" if "g \<in> set (f # map snd qfs)" for g
      using d c _ ku by (rule resolved_field_clean) (use assms(9) that in auto)
    have "\<not> contains (resolveField m f) (reference k)" by (rule clean) simp
    moreover have "\<not> contains g' (reference k)" if "g' \<in> snd ` set (resolveFields m qfs)" for g'
    proof -
      from that have "g' \<in> set (map snd (resolveFields m qfs))" by simp
      then obtain g where "g \<in> set (map snd qfs)" "g' = resolveField m g"
        unfolding resolveFields_fields by auto
      then show ?thesis using clean by simp
    qed
    ultimately show ?thesis unfolding contains_join [OF q] by blast
  qed
  have 3: "contains ?r u" if ku: "(k, u) \<in> set m" and r: "reference k \<in> set (f # map snd qfs)"
    for k u
  proof -
    have "resolveField m (reference k) \<in> resolveField m ` set (f # map snd qfs)"
      using r by (rule imageI)
    then have "resolveField m (reference k) \<in> set (resolveField m f # map snd (resolveFields m qfs))"
      unfolding resolveFields_fields by (auto simp: image_image)
    then have "u \<in> set (resolveField m f # map snd (resolveFields m qfs))"
      unfolding resolveField_reference [OF d ku] .
    then show ?thesis by (rule contains_join_field)
  qed
  have 4: "\<exists>p\<in>set ps. isInlineImage p \<and> \<not> snd (Body p)
               \<and> k = trim (hContentId (Header p)) ''<>''
               \<and> u = dataURI (ctMediaType (Header p)) (fst (Body p))" if "(k, u) \<in> set m" for k u
    using assms(5) that by (rule call_map)
  have c2: "\<forall>(k, u)\<in>set m. \<not> contains (snd (extractBodyParts ord e)) (reference k)"
    unfolding 1 using 2 by auto
  have c3: "\<forall>(k, u)\<in>set m. reference k \<in> set (f # map snd qfs) \<longrightarrow>
               contains (snd (extractBodyParts ord e)) u"
  proof (rule ballI)
    fix x assume x: "x \<in> set m"
    obtain k u where xk: "x = (k, u)" by (cases x)
    from 3 [of k u] x have "reference k \<in> set (f # map snd qfs) \<longrightarrow>
        contains (joinFields (resolveField m f) (resolveFields m qfs)) u"
      unfolding xk by blast
    then show "case x of (k, u) \<Rightarrow> reference k \<in> set (f # map snd qfs) \<longrightarrow>
               contains (snd (extractBodyParts ord e)) u"
      unfolding xk 1 by simp
  qed
  have c4: "\<forall>(k, u)\<in>set m. \<exists>p\<in>set ps. isInlineImage p \<and> \<not> snd (Body p)
               \<and> k = trim (hContentId (Header p)) ''<>''
               \<and> u = dataURI (ctMediaType (Header p)) (fst (Body p))"
    using 4 by blast
  from 1 c2 c3 c4 show ?thesis by blast
qed


lemma mimePart_loop:
  assumes "hasPrefix mt ''image/''" "cid \<noteq> []"
  shows "partsLoop ord (mimePart mt cid disposition content # ys) (t, h, m)
           = partsLoop ord ys (t, h, AList.update (trim cid ''<>'') (dataURI mt content) m)"
proof -
  have i: "isInlineImage (mimePart mt cid disposition content)"
    using assms by (simp add: mimePart_def isInlineImage_def)
  show ?thesis using partsLoop_inline [OF i, of ord ys t h m] by (simp add: mimePart_def)
qed

lemma typeError_loop:
  assumes "hasPrefix mt ''image/''" "cid \<noteq> []"
  shows "partsLoop ord (withTypeError (mimePart mt cid disposition content) # ys) (t, h, m)
           = partsLoop ord ys (t, h, AList.update (trim cid ''<>'') (dataURI mt content) m)"
proof -
  have i: "isInlineImage (withTypeError (mimePart mt cid disposition content))"
    using assms by (simp add: withTypeError_def mimePart_def isInlineImage_def)
  show ?thesis
    using partsLoop_inline [OF i, of ord ys t h m] by (simp add: withTypeError_def mimePart_def)
qed

lemma image_types:
  "hasPrefix ''image/png'' ''image/''" "hasPrefix ''image/gif'' ''image/''"
  "hasPrefix ''image/cid:a'' ''image/''"
  by simp_all

lemma uri_png: "dataURI ''image/png'' ''PNG'' = ''data:image/png;base64,UE5H''"
  by (simp add: dataURI_def sextet_def encodeStd_def)

lemma uri_gif: "dataURI ''image/gif'' ''GIF'' = ''data:image/gif;base64,R0lG''"
  by (simp add: dataURI_def sextet_def encodeStd_def)

lemma uri_colon: "dataURI ''image/cid:a'' ''PNG'' = ''data:image/cid:a;base64,UE5H''"
  by (simp add: dataURI_def sextet_def encodeStd_def)

lemma trim_ids:
  "trim ''<img1>'' ''<>'' = ''img1''" "trim ''<img10>'' ''<>'' = ''img10''"
  "trim ''<logo>'' ''<>'' = ''logo''" "trim ''<a>'' ''<>'' = ''a''" "trim ''<d>'' ''<>'' = ''d''"
  by (simp_all add: trim_def)

text \<open>
  Claim C2 as it is stated fails, in four ways. First message: the html part is a direct
  part of the multipart/mixed message and the inline image with content-id \<open>img1\<close> is a part
  of a nested multipart/related; the nested call collects \<open>img1\<close> into its map, and the html
  returned for the message still contains \<open>cid:img1\<close>. Second message: the html
  \<open>cid:cid:d\<close> and an inline image with content-id \<open>d\<close> are parts of the same entity; the
  reference is replaced, and the html returned, \<open>cid:data:image/png;base64,UE5H\<close>, contains
  \<open>cid:d\<close>. Third message: the map holds \<open>img1\<close> and \<open>img10\<close> and the html is \<open>cid:img10\<close>;
  when \<open>img1\<close> is visited first the html returned is the data-URI of \<open>img1\<close> followed by
  \<open>0\<close>, not the data-URI of \<open>img10\<close>. Fourth message: \<open>Header.ContentType()\<close> returns the
  value \<open>image/cid:a\<close> (with an error, which the loop ignores) for an image with content-id
  \<open>a\<close>; the html returned contains the data-URI, which contains \<open>cid:a\<close>.
\<close>

theorem reference_left_in_html:
  "partsLoop id [mimePart ''image/png'' ''<img1>'' ''inline'' ''PNG''] ([], [], [])
     = ([], [], [(''img1'', ''data:image/png;base64,UE5H'')])
   \<and> extractBodyParts id (multipart ''multipart/mixed''
         [leaf ''text/html'' ''<img src=cid:img1>'',
          multipart ''multipart/related'' [mimePart ''image/png'' ''<img1>'' ''inline'' ''PNG'']])
       = ([], ''<img src=cid:img1>'')
   \<and> contains ''<img src=cid:img1>'' ''cid:img1''
   \<and> partsLoop id [leaf ''text/html'' ''cid:cid:d'', mimePart ''image/png'' ''<d>'' ''inline'' ''PNG'']
         ([], [], [])
       = ([], ''cid:cid:d'', [(''d'', ''data:image/png;base64,UE5H'')])
   \<and> extractBodyParts id (multipart ''multipart/related''
         [leaf ''text/html'' ''cid:cid:d'', mimePart ''image/png'' ''<d>'' ''inline'' ''PNG''])
       = ([], ''cid:data:image/png;base64,UE5H'')
   \<and> contains ''cid:data:image/png;base64,UE5H'' ''cid:d''
   \<and> partsLoop id [leaf ''text/html'' ''cid:img10'',
                    mimePart ''image/png'' ''<img1>'' ''inline'' ''PNG'',
                    mimePart ''image/gif'' ''<img10>'' ''inline'' ''GIF''] ([], [], [])
       = ([], ''cid:img10'', [(''img1'', ''data:image/png;base64,UE5H''),
                              (''img10'', ''data:image/gif;base64,R0lG'')])
   \<and> extractBodyParts id (multipart ''multipart/related''
         [leaf ''text/html'' ''cid:img10'',
          mimePart ''image/png'' ''<img1>'' ''inline'' ''PNG'',
          mimePart ''image/gif'' ''<img10>'' ''inline'' ''GIF''])
       = ([], ''data:image/png;base64,UE5H0'')
   \<and> partsLoop id [leaf ''text/html'' ''<cid:a>'',
                    withTypeError (mimePart ''image/cid:a'' ''<a>'' ''inline'' ''PNG'')]
         ([], [], [])
       = ([], ''<cid:a>'', [(''a'', ''data:image/cid:a;base64,UE5H'')])
   \<and> extractBodyParts id (multipart ''multipart/related''
         [leaf ''text/html'' ''<cid:a>'',
          withTypeError (mimePart ''image/cid:a'' ''<a>'' ''inline'' ''PNG'')])
       = ([], ''<data:image/cid:a;base64,UE5H>'')
   \<and> contains ''<data:image/cid:a;base64,UE5H>'' ''cid:a''"
proof -
  let ?img = "mimePart ''image/png'' ''<img1>'' ''inline'' ''PNG''"
  have 1: "partsLoop id [?img] ([], [], []) = ([], [], [(''img1'', ''data:image/png;base64,UE5H'')])"
    by (simp add: mimePart_loop uri_png trim_ids)
  have n: "extractBodyParts id (multipart ''multipart/related'' [?img]) = ([], [])"
    unfolding extract_multipart [OF related_multipart] 1 by simp
  have 2: "extractBodyParts id (multipart ''multipart/mixed''
         [leaf ''text/html'' ''<img src=cid:img1>'', multipart ''multipart/related'' [?img]])
       = ([], ''<img src=cid:img1>'')"
    unfolding extract_multipart [OF mixed_multipart]
    using partsLoop_recurse [OF multipart_default n, of "[]" "[]" "''<img src=cid:img1>''" "[]"]
    by simp
  have 3: "contains ''<img src=cid:img1>'' ''cid:img1''" by simp
  have 4: "partsLoop id [leaf ''text/html'' ''cid:cid:d'', mimePart ''image/png'' ''<d>'' ''inline'' ''PNG'']
         ([], [], [])
       = ([], ''cid:cid:d'', [(''d'', ''data:image/png;base64,UE5H'')])"
    by (simp add: mimePart_loop uri_png trim_ids)
  have 5: "extractBodyParts id (multipart ''multipart/related''
         [leaf ''text/html'' ''cid:cid:d'', mimePart ''image/png'' ''<d>'' ''inline'' ''PNG''])
       = ([], ''cid:data:image/png;base64,UE5H'')"
    unfolding extract_multipart [OF related_multipart] 4 by (simp add: rewrite_def)
  have 6: "contains ''cid:data:image/png;base64,UE5H'' ''cid:d''" by simp
  have 7: "partsLoop id [leaf ''text/html'' ''cid:img10'',
                    mimePart ''image/png'' ''<img1>'' ''inline'' ''PNG'',
                    mimePart ''image/gif'' ''<img10>'' ''inline'' ''GIF''] ([], [], [])
       = ([], ''cid:img10'', [(''img1'', ''data:image/png;base64,UE5H''),
                              (''img10'', ''data:image/gif;base64,R0lG'')])"
    by (simp add: mimePart_loop uri_png uri_gif trim_ids)
  have 8: "extractBodyParts id (multipart ''multipart/related''
         [leaf ''text/html'' ''cid:img10'',
          mimePart ''image/png'' ''<img1>'' ''inline'' ''PNG'',
          mimePart ''image/gif'' ''<img10>'' ''inline'' ''GIF''])
       = ([], ''data:image/png;base64,UE5H0'')"
    unfolding extract_multipart [OF related_multipart] 7 by (simp add: rewrite_def)
  have 9: "partsLoop id [leaf ''text/html'' ''<cid:a>'',
                    withTypeError (mimePart ''image/cid:a'' ''<a>'' ''inline'' ''PNG'')]
         ([], [], [])
       = ([], ''<cid:a>'', [(''a'', ''data:image/cid:a;base64,UE5H'')])"
    by (simp add: typeError_loop uri_colon trim_ids)
  have 10: "extractBodyParts id (multipart ''multipart/related''
         [leaf ''text/html'' ''<cid:a>'',
          withTypeError (mimePart ''image/cid:a'' ''<a>'' ''inline'' ''PNG'')])
       = ([], ''<data:image/cid:a;base64,UE5H>'')"
    unfolding extract_multipart [OF related_multipart] 9 by (simp add: rewrite_def)
  have 11: "contains ''<data:image/cid:a;base64,UE5H>'' ''cid:a''" by simp
  from 1 2 3 4 5 6 7 8 9 10 11 show ?thesis by blast
qed


theorem inline_references_rewritten_witness:
  "rangeOrder id
   \<and> partsLoop id
        [multipart ''multipart/alternative''
           [leaf ''text/plain'' ''Hi'',
            leaf ''text/html''
              (joinFields ''<img src=''
                 [(CHR 0x22, ''cid:img1''), (CHR 0x22, ''><img src=''),
                  (CHR 0x22, ''cid:logo''), (CHR 0x22, ''><img src=''),
                  (CHR 0x22, ''cid:img1''), (CHR 0x22, ''>'')])],
         mimePart ''image/png'' ''<img1>'' ''inline'' ''PNG'',
         mimePart ''image/gif'' ''<logo>'' ''inline'' ''GIF''] ([], [], [])
      = (''Hi'',
         joinFields ''<img src=''
           [(CHR 0x22, ''cid:img1''), (CHR 0x22, ''><img src=''),
            (CHR 0x22, ''cid:logo''), (CHR 0x22, ''><img src=''),
            (CHR 0x22, ''cid:img1''), (CHR 0x22, ''>'')],
         [(''img1'', ''data:image/png;base64,UE5H''), (''logo'', ''data:image/gif;base64,R0lG'')])
   \<and> extractBodyParts id (multipart ''multipart/related''
        [multipart ''multipart/alternative''
           [leaf ''text/plain'' ''Hi'',
            leaf ''text/html''
              (joinFields ''<img src=''
                 [(CHR 0x22, ''cid:img1''), (CHR 0x22, ''><img src=''),
                  (CHR 0x22, ''cid:logo''), (CHR 0x22, ''><img src=''),
                  (CHR 0x22, ''cid:img1''), (CHR 0x22, ''>'')])],
         mimePart ''image/png'' ''<img1>'' ''inline'' ''PNG'',
         mimePart ''image/gif'' ''<logo>'' ''inline'' ''GIF''])
      = (''Hi'',
         joinFields ''<img src=''
           [(CHR 0x22, ''data:image/png;base64,UE5H''), (CHR 0x22, ''><img src=''),
            (CHR 0x22, ''data:image/gif;base64,R0lG''), (CHR 0x22, ''><img src=''),
            (CHR 0x22, ''data:image/png;base64,UE5H''), (CHR 0x22, ''>'')])
   \<and> \<not> contains
        (joinFields ''<img src=''
           [(CHR 0x22, ''data:image/png;base64,UE5H''), (CHR 0x22, ''><img src=''),
            (CHR 0x22, ''data:image/gif;base64,R0lG''), (CHR 0x22, ''><img src=''),
            (CHR 0x22, ''data:image/png;base64,UE5H''), (CHR 0x22, ''>'')])
        ''cid:img1''
   \<and> \<not> contains
        (joinFields ''<img src=''
           [(CHR 0x22, ''data:image/png;base64,UE5H''), (CHR 0x22, ''><img src=''),
            (CHR 0x22, ''data:image/gif;base64,R0lG''), (CHR 0x22, ''><img src=''),
            (CHR 0x22, ''data:image/png;base64,UE5H''), (CHR 0x22, ''>'')])
        ''cid:logo''
   \<and> contains
        (joinFields ''<img src=''
           [(CHR 0x22, ''data:image/png;base64,UE5H''), (CHR 0x22, ''><img src=''),
            (CHR 0x22, ''data:image/gif;base64,R0lG''), (CHR 0x22, ''><img src=''),
            (CHR 0x22, ''data:image/png;base64,UE5H''), (CHR 0x22, ''>'')])
        ''data:image/gif;base64,R0lG''"
proof -
  let ?qfs = "[(CHR 0x22, ''cid:img1''), (CHR 0x22, ''><img src=''),
               (CHR 0x22, ''cid:logo''), (CHR 0x22, ''><img src=''),
               (CHR 0x22, ''cid:img1''), (CHR 0x22, ''>'')]"
  let ?h = "joinFields ''<img src='' ?qfs"
  let ?r = "joinFields ''<img src=''
           [(CHR 0x22, ''data:image/png;base64,UE5H''), (CHR 0x22, ''><img src=''),
            (CHR 0x22, ''data:image/gif;base64,R0lG''), (CHR 0x22, ''><img src=''),
            (CHR 0x22, ''data:image/png;base64,UE5H''), (CHR 0x22, ''>'')]"
  let ?alt = "multipart ''multipart/alternative'' [leaf ''text/plain'' ''Hi'', leaf ''text/html'' ?h]"
  let ?ps = "[?alt, mimePart ''image/png'' ''<img1>'' ''inline'' ''PNG'',
              mimePart ''image/gif'' ''<logo>'' ''inline'' ''GIF'']"
  let ?m = "[(''img1'', ''data:image/png;base64,UE5H''), (''logo'', ''data:image/gif;base64,R0lG'')]"
  let ?e = "multipart ''multipart/related'' ?ps"
  have o: "rangeOrder id" by (simp add: rangeOrder_def)
  have a: "extractBodyParts id ?alt = (''Hi'', ?h)"
    unfolding extract_multipart [OF alternative_multipart] by simp
  have l: "partsLoop id ?ps ([], [], []) = (''Hi'', ?h, ?m)"
    unfolding partsLoop_recurse [OF multipart_default a]
    by (simp add: mimePart_loop uri_png uri_gif trim_ids)
  have e: "\<not> ctErr (Header ?e)" "hasPrefix (ctMediaType (Header ?e)) ''multipart/''"
    "Parts ?e = Some ?ps"
    by (simp_all add: related_multipart)
  have c: "\<forall>p\<in>set ?ps. isInlineImage p \<longrightarrow> CHR '':'' \<notin> set (ctMediaType (Header p))"
    by (simp add: mimePart_def)
  have q: "\<forall>(k, u)\<in>set ?m. \<forall>q\<in>fst ` set ?qfs. q \<notin> set (reference k)"
    by (simp add: reference_def)
  have g: "\<forall>(k, u)\<in>set ?m. \<forall>g\<in>set (''<img src='' # map snd ?qfs).
           g = reference k \<or> \<not> contains g (reference k)"
    by (simp add: reference_def)
  have r: "joinFields (resolveField ?m ''<img src='') (resolveFields ?m ?qfs) = ?r"
    by (simp add: resolveField_def resolveFields_def)
  note th = inline_references_rewritten [OF o e l c refl q g]
  from th have 1: "extractBodyParts id ?e = (''Hi'', ?r)" unfolding r by blast
  from th have "\<forall>(k, u)\<in>set ?m. \<not> contains (snd (extractBodyParts id ?e)) (reference k)"
    by blast
  then have 2: "\<not> contains ?r ''cid:img1''" and 3: "\<not> contains ?r ''cid:logo''"
    unfolding 1 by (simp_all add: reference_def)
  from th have "\<forall>(k, u)\<in>set ?m. reference k \<in> set (''<img src='' # map snd ?qfs) \<longrightarrow>
      contains (snd (extractBodyParts id ?e)) u"
    by blast
  then have 4: "contains ?r ''data:image/gif;base64,R0lG''"
    unfolding 1 by (simp add: reference_def)
  from o l 1 2 3 4 show ?thesis by blast
qed

end
